theory Spec2Isabelle
  imports Main "HOL-Library.Word"
begin

unbundle bit_operations_syntax

section \<open>JavaScript values used by the ArtNet client\<close>

text \<open>
  The client (\<^verbatim>\<open>src/lib/Artnet.ts\<close>) is a TypeScript class. Its numbers are modelled as
  unbounded integers (\<^typ>\<open>int\<close>): fractions, NaN and the loss of precision beyond
  \<open>2^53\<close> are outside the model. The bytes of a \<^verbatim>\<open>Buffer\<close> or \<^verbatim>\<open>Uint8Array\<close> are
  8-bit words.
\<close>

type_synonym byte = "8 word"

text \<open>
  A JavaScript array is an object with a \<^verbatim>\<open>length\<close> and properties. Reading a property
  that was never written gives \<^verbatim>\<open>undefined\<close> (\<open>None\<close>). Writing at an array index
  (an integer from 0 up to \<open>2^32 - 2\<close>) at or beyond \<^verbatim>\<open>length\<close> extends the array and
  leaves holes behind; writing at any other integer key (a negative one, say) stores an
  ordinary property and leaves \<^verbatim>\<open>length\<close> alone.
\<close>

record 'a jsarray =
  alength :: nat
  slots :: "int \<Rightarrow> 'a option"

definition is_index :: "int \<Rightarrow> bool" where
  "is_index i = (0 \<le> i \<and> i < 4294967295)"

definition arr_empty :: "'a jsarray" where
  "arr_empty = \<lparr>alength = 0, slots = (\<lambda>i. None)\<rparr>"

definition arr_get :: "'a jsarray \<Rightarrow> int \<Rightarrow> 'a option" where
  "arr_get a i = slots a i"

definition arr_set :: "'a jsarray \<Rightarrow> int \<Rightarrow> 'a \<Rightarrow> 'a jsarray" where
  "arr_set a i v =
     \<lparr>alength = (if is_index i then max (alength a) (nat i + 1) else alength a),
      slots = (slots a)(i \<mapsto> v)\<rparr>"

text \<open>\<^verbatim>\<open>new Array(n).fill(v)\<close>\<close>

definition arr_fill :: "nat \<Rightarrow> 'a \<Rightarrow> 'a jsarray" where
  "arr_fill n v = \<lparr>alength = n, slots = (\<lambda>i. if 0 \<le> i \<and> i < int n then Some v else None)\<rparr>"

text \<open>\<^verbatim>\<open>a.slice(0, end)\<close> for \<open>end \<ge> 0\<close>: the entries below \<open>min end length\<close>, holes kept.\<close>

definition arr_slice0 :: "'a jsarray \<Rightarrow> nat \<Rightarrow> 'a option list" where
  "arr_slice0 a e = map (\<lambda>j. slots a (int j)) [0..<min e (alength a)]"

text \<open>Truthiness of a number that may be \<^verbatim>\<open>undefined\<close>: \<^verbatim>\<open>undefined\<close> and 0 are falsy.\<close>

definition truthy :: "int option \<Rightarrow> bool" where
  "truthy x = (case x of None \<Rightarrow> False | Some n \<Rightarrow> n \<noteq> 0)"

text \<open>The remainder operator \<^verbatim>\<open>%\<close>: the result has the sign of the dividend.\<close>

definition js_rem :: "int \<Rightarrow> int \<Rightarrow> int" where
  "js_rem a b = sgn a * (\<bar>a\<bar> mod \<bar>b\<bar>)"

text \<open>
  \<^verbatim>\<open>Buffer.from(array)\<close> stores \<^verbatim>\<open>array[i] & 255\<close> in each byte, and
  \<^verbatim>\<open>new Uint8Array(array)\<close> stores each entry modulo 256; \<^verbatim>\<open>undefined & 255\<close> is 0.
\<close>

definition to_byte :: "int option \<Rightarrow> byte" where
  "to_byte x = (case x of None \<Rightarrow> 0 | Some v \<Rightarrow> word_of_int (v AND 255))"

definition Buffer_from :: "int option list \<Rightarrow> byte list" where
  "Buffer_from xs = map to_byte xs"

section \<open>The client's state\<close>

text \<open>The optional fields of \<^verbatim>\<open>Config\<close> (\<^verbatim>\<open>src/lib/mod.ts\<close>).\<close>

record config =
  cfg_host :: "string option"
  cfg_port :: "int option"
  cfg_refresh :: "int option"
  cfg_sendAll :: "bool option"
  cfg_iface :: "string option"

text \<open>A datagram handed to \<^verbatim>\<open>socket.send\<close>: the buffer, the port and the host.\<close>

type_synonym datagram = "byte list \<times> int \<times> string"

text \<open>
  The fields of the class keep their names. Four more fields stand for the runtime the
  class talks to: \<open>sent\<close> lists the datagrams handed to the socket, oldest first;
  \<open>timers\<close> maps the id of every armed interval timer to the universe its callback
  refreshes; \<open>next_timer\<close> is the id \<^verbatim>\<open>setInterval\<close> returns next; \<open>sleeping\<close> lists the
  universes whose \<^verbatim>\<open>send\<close> is suspended in \<^verbatim>\<open>await sleep(25)\<close>; \<open>socket_closed\<close> records
  \<^verbatim>\<open>socket.close()\<close>.
\<close>

record artnet =
  host :: string
  port :: int
  refresh :: int
  sendAll :: bool
  data :: "int jsarray jsarray"
  interval :: "nat jsarray"
  throttled :: "bool jsarray"
  dataChanged :: "int jsarray"
  sent :: "datagram list"
  timers :: "nat \<Rightarrow> int option"
  next_timer :: nat
  sleeping :: "int list"
  socket_closed :: bool

definition broadcast :: string where
  "broadcast = ''255.255.255.255''"

text \<open>
  The constructor. \<^verbatim>\<open>config.host || '255.255.255.255'\<close> takes the default for a missing
  and for an empty host, \<^verbatim>\<open>config.port || 6454\<close> for a missing port and for port 0.
  Creating and binding the socket is left to the runtime.
\<close>

definition Artnet_new :: "config \<Rightarrow> artnet" where
  "Artnet_new c =
     \<lparr>host = (case cfg_host c of None \<Rightarrow> broadcast | Some h \<Rightarrow> if h = [] then broadcast else h),
      port = (case cfg_port c of None \<Rightarrow> 6454 | Some p \<Rightarrow> if p = 0 then 6454 else p),
      refresh = (case cfg_refresh c of None \<Rightarrow> 4000 | Some r \<Rightarrow> if r = 0 then 4000 else r),
      sendAll = (case cfg_sendAll c of None \<Rightarrow> False | Some b \<Rightarrow> b),
      data = arr_empty,
      interval = arr_empty,
      throttled = arr_empty,
      dataChanged = arr_empty,
      sent = [],
      timers = (\<lambda>i. None),
      next_timer = 1,
      sleeping = [],
      socket_closed = False\<rparr>"

section \<open>Timers\<close>

definition clearInterval :: "artnet \<Rightarrow> nat \<Rightarrow> artnet" where
  "clearInterval s i = s\<lparr>timers := (timers s)(i := None)\<rparr>"

text \<open>
  \<^verbatim>\<open>refreshInterval\<close>: clear the universe's timer when its handle is truthy, then arm a
  new one and store its handle.
\<close>

definition refreshInterval :: "artnet \<Rightarrow> int \<Rightarrow> artnet" where
  "refreshInterval s universe =
     (let s1 = (case arr_get (interval s) universe of
                  None \<Rightarrow> s
                | Some i \<Rightarrow> if i \<noteq> 0 then clearInterval s i else s);
          i = next_timer s1
      in s1\<lparr>timers := (timers s1)(i \<mapsto> universe),
             next_timer := i + 1,
             interval := arr_set (interval s1) universe i\<rparr>)"

section \<open>The frame encoders\<close>

text \<open>
  \<^verbatim>\<open>triggerPackage(oem = 0xffff, key = 0xff, subkey = 0)\<close>: an argument left out
  (\<open>None\<close>) takes its default. The method reads and writes no field of the object.
\<close>

definition triggerPackage :: "int option \<Rightarrow> int option \<Rightarrow> int option \<Rightarrow> byte list" where
  "triggerPackage oem_opt key_opt subkey_opt =
     (let oem = (case oem_opt of None \<Rightarrow> 65535 | Some x \<Rightarrow> x);
          key = (case key_opt of None \<Rightarrow> 255 | Some x \<Rightarrow> x);
          subkey = (case subkey_opt of None \<Rightarrow> 0 | Some x \<Rightarrow> x);
          hOem = (drop_bit 8 oem) AND 255;
          lOem = oem AND 255;
          header = [65, 114, 116, 45, 78, 101, 116, 0, 0, 153, 0, 14, 0, 0, hOem, lOem, key, subkey];
          payload = replicate 512 0
      in map word_of_int (header @ payload))"

text \<open>
  \<^verbatim>\<open>artdmxPackage(universe, length = 2)\<close>. The shifts and masks of the source work on
  the 32-bit truncation of their operand; bits 0 to 15, the only ones read here, are
  those of the integer itself. The method allocates the universe's buffer when there is
  none, so it returns the state too.
\<close>

definition artdmxPackage :: "artnet \<Rightarrow> int \<Rightarrow> int option \<Rightarrow> byte list \<times> artnet" where
  "artdmxPackage s universe length_opt =
     (let length0 = (case length_opt of None \<Rightarrow> 2 | Some l \<Rightarrow> l);
          length1 = (if js_rem length0 2 \<noteq> 0 then length0 + 1 else length0);
          hUni = (drop_bit 8 universe) AND 255;
          lUni = universe AND 255;
          hLen = (drop_bit 8 length1) AND 255;
          lLen = length1 AND 255;
          header = [65, 114, 116, 45, 78, 101, 116, 0, 0, 80, 0, 14, 0, 0, lUni, hUni, hLen, lLen];
          (a, s') = (case arr_get (data s) universe of
                       None \<Rightarrow> (arr_fill 512 0,
                                 s\<lparr>data := arr_set (data s) universe (arr_fill 512 0)\<rparr>)
                     | Some a \<Rightarrow> (a, s))
      in (Buffer_from (map Some header @ arr_slice0 a (nat ((hLen * 256) + lLen))), s'))"

section \<open>Sending\<close>

datatype error = RangeError string | Error string

text \<open>
  What a caller gets back from \<^verbatim>\<open>set\<close> or \<^verbatim>\<open>send\<close>: a promise already resolved with
  \<^verbatim>\<open>null\<close>, a promise already rejected, or the promise that settles with whatever the
  socket reports for the datagram just handed to it.
\<close>

datatype outcome = Resolved_null | Rejected error | Socket_promise

text \<open>
  \<^verbatim>\<open>send\<close> up to its \<^verbatim>\<open>await\<close>: everything before the suspension runs at once, in the
  caller's turn. The rest of the body runs when the 25 ms have passed (\<open>wake\<close>).
\<close>

definition send :: "artnet \<Rightarrow> int \<Rightarrow> bool \<Rightarrow> outcome \<times> artnet" where
  "send s universe refresh0 =
     (let refresh1 = (if sendAll s then True else refresh0);
          s1 = refreshInterval s universe
      in if arr_get (throttled s1) universe = Some True
         then (Rejected (RangeError ''Call already pending''), s1)
         else
           let s2 = s1\<lparr>throttled := arr_set (throttled s1) universe True\<rparr>;
               (buf, s3) = artdmxPackage s2 universe
                             (if refresh1 then Some 512 else arr_get (dataChanged s2) universe);
               s4 = s3\<lparr>dataChanged := arr_set (dataChanged s3) universe 0\<rparr>;
               s5 = s4\<lparr>sent := sent s4 @ [(buf, port s4, host s4)]\<rparr>
           in (Socket_promise, s5\<lparr>sleeping := sleeping s5 @ [universe]\<rparr>))"

definition wake :: "artnet \<Rightarrow> int \<Rightarrow> artnet" where
  "wake s universe =
     (if universe \<in> set (sleeping s)
      then s\<lparr>throttled := arr_set (throttled s) universe False,
             sleeping := remove1 universe (sleeping s)\<rparr>
      else s)"

text \<open>\<^verbatim>\<open>trigger\<close> hands a trigger frame to the socket; it is never throttled.\<close>

definition trigger :: "artnet \<Rightarrow> int \<Rightarrow> int \<Rightarrow> int \<Rightarrow> outcome \<times> artnet" where
  "trigger s oem key subkey =
     (let buf = triggerPackage (Some oem) (Some key) (Some subkey)
      in (Socket_promise, s\<lparr>sent := sent s @ [(buf, port s, host s)]\<rparr>))"

section \<open>Setting channel values\<close>

text \<open>
  The first argument of \<^verbatim>\<open>set\<close>: one number or an array of numbers. The entries of
  the array are numbers, as its declared type \<^verbatim>\<open>number[]\<close> says, so the loop's test
  \<^verbatim>\<open>typeof value[i] === 'number'\<close> holds for each of them.
\<close>

datatype jsvalue = Num int | Arr "int list"

text \<open>
  One pass of the body shared by the loop and the single-value branch: when the entry at
  \<open>index\<close> differs from \<open>v\<close> (\<^verbatim>\<open>!==\<close>; a hole differs from every number), store \<open>v\<close> there
  and raise the watermark \<^verbatim>\<open>dataChanged[universe]\<close> to \<open>mark\<close> when \<open>mark\<close> is greater.
  \<^verbatim>\<open>set\<close> allocates the buffer and gives the watermark a number before it gets here, so
  the two \<open>None\<close> branches are never taken.
\<close>

definition store_channel :: "artnet \<Rightarrow> int \<Rightarrow> int \<Rightarrow> int \<Rightarrow> int \<Rightarrow> artnet" where
  "store_channel s universe index v mark =
     (case arr_get (data s) universe of
        None \<Rightarrow> s
      | Some a \<Rightarrow>
          if arr_get a index \<noteq> Some v
          then
            let s1 = s\<lparr>data := arr_set (data s) universe (arr_set a index v)\<rparr>
            in (case arr_get (dataChanged s1) universe of
                  None \<Rightarrow> s1
                | Some w \<Rightarrow>
                    if mark > w
                    then s1\<lparr>dataChanged := arr_set (dataChanged s1) universe mark\<rparr>
                    else s1)
          else s)"

text \<open>The \<^verbatim>\<open>for\<close> loop over the array, \<open>i\<close> counting from 0; \<open>index = channel + i - 1\<close>.\<close>

fun store_values :: "artnet \<Rightarrow> int \<Rightarrow> int \<Rightarrow> int \<Rightarrow> int list \<Rightarrow> artnet" where
  "store_values s universe channel i [] = s"
| "store_values s universe channel i (v # vs) =
     store_values (store_channel s universe (channel + i - 1) v ((channel + i - 1) + 1))
       universe channel (i + 1) vs"

text \<open>
  The first two statements of \<^verbatim>\<open>set\<close>: allocate the buffer when the universe has none,
  and turn a missing or zero watermark into 0
  (\<^verbatim>\<open>this.dataChanged[universe] = this.dataChanged[universe] || 0\<close>).
\<close>

definition ensure_universe :: "artnet \<Rightarrow> int \<Rightarrow> artnet" where
  "ensure_universe s universe =
     (let s1 = (case arr_get (data s) universe of
                  None \<Rightarrow> s\<lparr>data := arr_set (data s) universe (arr_fill 512 0)\<rparr>
                | Some a \<Rightarrow> s)
      in s1\<lparr>dataChanged := arr_set (dataChanged s1) universe
                  (case arr_get (dataChanged s1) universe of
                     None \<Rightarrow> 0
                   | Some w \<Rightarrow> if w \<noteq> 0 then w else 0)\<rparr>)"

text \<open>
  The part of \<^verbatim>\<open>set\<close> that works on the buffer: the two statements above, then the
  stores. An empty array takes neither branch of the \<^verbatim>\<open>if\<close>.
\<close>

definition set_buffer :: "artnet \<Rightarrow> jsvalue \<Rightarrow> int \<Rightarrow> int \<Rightarrow> artnet" where
  "set_buffer s val channel universe =
     (let s2 = ensure_universe s universe
      in (case val of
            Arr vs \<Rightarrow> if length vs > 0 then store_values s2 universe channel 0 vs else s2
          | Num v \<Rightarrow> store_channel s2 universe (channel - 1) v channel))"

definition set_artnet :: "artnet \<Rightarrow> jsvalue \<Rightarrow> int \<Rightarrow> int \<Rightarrow> outcome \<times> artnet" where
  "set_artnet s val channel universe =
     (let s1 = set_buffer s val channel universe
      in if truthy (arr_get (dataChanged s1) universe)
         then send s1 universe False
         else (Resolved_null, s1))"

section \<open>Configuration and shutdown\<close>

definition setHost :: "artnet \<Rightarrow> string \<Rightarrow> artnet" where
  "setHost s h = s\<lparr>host := h\<rparr>"

text \<open>\<^verbatim>\<open>setPort\<close> throws when the host is the broadcast address; the state is returned too.\<close>

definition setPort :: "artnet \<Rightarrow> int \<Rightarrow> (error + unit) \<times> artnet" where
  "setPort s p =
     (if host s = ''255.255.255.255''
      then (Inl (Error ''Can't change port when using broadcast address 255.255.255.255''), s)
      else (Inr (), s\<lparr>port := p\<rparr>))"

text \<open>
  \<^verbatim>\<open>close\<close> clears the timer of every index below \<^verbatim>\<open>interval.length\<close>
  (\<^verbatim>\<open>clearInterval(undefined)\<close> does nothing) and closes the socket.
\<close>

definition close :: "artnet \<Rightarrow> artnet" where
  "close s =
     (fold (\<lambda>i t. case arr_get (interval t) (int i) of
                     None \<Rightarrow> t
                   | Some h \<Rightarrow> clearInterval t h)
           [0..<alength (interval s)] s)\<lparr>socket_closed := True\<rparr>"

section \<open>Runs of the client\<close>

text \<open>
  Everything that can happen to a client: a call of a public method, a call of a
  protected one (from a subclass), the end of a 25 ms sleep, the tick of an interval
  timer. A sleep that is not pending and a timer that is not armed do nothing.
\<close>

datatype event =
    Set jsvalue int int
  | SetHost string
  | SetPort int
  | Close
  | Send int bool
  | Package int "int option"
  | Trigger int int int
  | Wake int
  | Tick nat

definition step :: "artnet \<Rightarrow> event \<Rightarrow> artnet" where
  "step s e =
     (case e of
        Set val channel universe \<Rightarrow> snd (set_artnet s val channel universe)
      | SetHost h \<Rightarrow> setHost s h
      | SetPort p \<Rightarrow> snd (setPort s p)
      | Close \<Rightarrow> close s
      | Send universe r \<Rightarrow> snd (send s universe r)
      | Package universe l \<Rightarrow> snd (artdmxPackage s universe l)
      | Trigger oem key subkey \<Rightarrow> snd (trigger s oem key subkey)
      | Wake universe \<Rightarrow> wake s universe
      | Tick i \<Rightarrow> (case timers s i of None \<Rightarrow> s | Some universe \<Rightarrow> snd (send s universe True)))"

definition run :: "artnet \<Rightarrow> event list \<Rightarrow> artnet" where
  "run s es = foldl step s es"

inductive reachable :: "artnet \<Rightarrow> bool" where
  reachable_new: "reachable (Artnet_new c)"
| reachable_step: "reachable s \<Longrightarrow> reachable (step s e)"

section \<open>Notions used in the statements\<close>

text \<open>
  A channel buffer as \<^verbatim>\<open>new Array(512).fill(0)\<close> and the writes of \<^verbatim>\<open>set\<close> leave it: at
  least 512 long, with a number in each of its first 512 entries.
\<close>

definition buffer_ok :: "int jsarray \<Rightarrow> bool" where
  "buffer_ok a = (512 \<le> alength a \<and> (\<forall>i. 0 \<le> i \<and> i < 512 \<longrightarrow> arr_get a i \<noteq> None))"

definition data_inv :: "artnet \<Rightarrow> bool" where
  "data_inv s = (\<forall>u a. arr_get (data s) u = Some a \<longrightarrow> buffer_ok a)"

text \<open>A client made with no configuration, for the examples.\<close>

definition default_config :: config where
  "default_config =
     \<lparr>cfg_host = None, cfg_port = None, cfg_refresh = None, cfg_sendAll = None, cfg_iface = None\<rparr>"

definition client0 :: artnet where
  "client0 = Artnet_new default_config"

text \<open>Rounding up to the next even number.\<close>

definition round_even :: "int \<Rightarrow> int" where
  "round_even n = (if even n then n else n + 1)"

text \<open>
  The channel buffer of a universe, and the number stored for a channel (channels count
  from 1). A universe that has no buffer yet stands for the zero-filled buffer of 512
  entries that \<^verbatim>\<open>set\<close> and \<^verbatim>\<open>artdmxPackage\<close> give it on first use.
\<close>

definition buffer_of :: "artnet \<Rightarrow> int \<Rightarrow> int jsarray" where
  "buffer_of s u = (case arr_get (data s) u of None \<Rightarrow> arr_fill 512 0 | Some a \<Rightarrow> a)"

definition channel_value :: "artnet \<Rightarrow> int \<Rightarrow> int \<Rightarrow> int option" where
  "channel_value s u c = arr_get (buffer_of s u) (c - 1)"

text \<open>The length a frame announces in its bytes 16 and 17, high byte first.\<close>

definition length_field :: "byte list \<Rightarrow> int" where
  "length_field buf = uint (buf ! 16) * 256 + uint (buf ! 17)"

text \<open>
  An event that writes no position beyond channel 512 of universe \<open>u\<close> (only a \<^verbatim>\<open>set\<close>
  on \<open>u\<close> can), and a watermark that is not above 512 (a universe without a watermark
  has none to be above).
\<close>

definition within512 :: "int \<Rightarrow> event \<Rightarrow> bool" where
  "within512 u e =
     (case e of
        Set (Num v) channel universe \<Rightarrow> universe = u \<longrightarrow> channel \<le> 512
      | Set (Arr vs) channel universe \<Rightarrow>
          universe = u \<longrightarrow> vs = [] \<or> channel + int (length vs) - 1 \<le> 512
      | _ \<Rightarrow> True)"

definition watermark_le512 :: "artnet \<Rightarrow> int \<Rightarrow> bool" where
  "watermark_le512 s u = (case arr_get (dataChanged s) u of None \<Rightarrow> True | Some w \<Rightarrow> w \<le> 512)"

text \<open>
  An event stores into universe \<open>u\<close> when it is a \<^verbatim>\<open>set\<close> on \<open>u\<close> with a value that
  differs from the stored one at some position it addresses. A run is quiet for \<open>u\<close>
  when none of its events stores into \<open>u\<close>, each looked at in the state it meets.
\<close>

definition stores :: "artnet \<Rightarrow> event \<Rightarrow> int \<Rightarrow> bool" where
  "stores s e u =
     (case e of
        Set (Num v) channel universe \<Rightarrow> universe = u \<and> channel_value s u channel \<noteq> Some v
      | Set (Arr vs) channel universe \<Rightarrow>
          universe = u \<and> (\<exists>k < length vs. channel_value s u (channel + int k) \<noteq> Some (vs ! k))
      | _ \<Rightarrow> False)"

fun quiet :: "artnet \<Rightarrow> int \<Rightarrow> event list \<Rightarrow> bool" where
  "quiet s u [] = True"
| "quiet s u (e # es) = (\<not> stores s e u \<and> quiet (step s e) u es)"

text \<open>
  Three states of the example client: after \<^verbatim>\<open>set(255, 1, 0)\<close>, which sends and leaves
  universe 0 throttled; after \<^verbatim>\<open>set(10, 2, 0)\<close> on top of that, which is rejected and
  leaves its change pending; and after the 25 ms of the first send have passed.
\<close>

definition client_busy :: artnet where
  "client_busy = step client0 (Set (Num 255) 1 0)"

definition client_behind :: artnet where
  "client_behind = step client_busy (Set (Num 10) 2 0)"

definition client_pending :: artnet where
  "client_pending = step client_behind (Wake 0)"

section \<open>Basic facts\<close>

lemma arr_get_set [simp]: "arr_get (arr_set a i v) j = (if j = i then Some v else arr_get a j)"
  by (simp add: arr_get_def arr_set_def)

lemma alength_arr_set_ge: "alength a \<le> alength (arr_set a i v)"
  by (simp add: arr_set_def)

lemma arr_get_empty [simp]: "arr_get arr_empty i = None"
  by (simp add: arr_get_def arr_empty_def)

lemma arr_get_fill [simp]:
  "arr_get (arr_fill n v) i = (if 0 \<le> i \<and> i < int n then Some v else None)"
  by (simp add: arr_get_def arr_fill_def)

lemma alength_fill [simp]: "alength (arr_fill n v) = n"
  by (simp add: arr_fill_def)

subsection \<open>What each operation leaves alone\<close>

lemma refreshInterval_frame [simp]:
  "data (refreshInterval s u) = data s"
  "dataChanged (refreshInterval s u) = dataChanged s"
  "throttled (refreshInterval s u) = throttled s"
  "sent (refreshInterval s u) = sent s"
  "sleeping (refreshInterval s u) = sleeping s"
  "host (refreshInterval s u) = host s"
  "port (refreshInterval s u) = port s"
  "sendAll (refreshInterval s u) = sendAll s"
  by (simp_all add: refreshInterval_def clearInterval_def Let_def split: option.split)

lemma store_channel_frame [simp]:
  "throttled (store_channel s u i v m) = throttled s"
  "sent (store_channel s u i v m) = sent s"
  "interval (store_channel s u i v m) = interval s"
  "timers (store_channel s u i v m) = timers s"
  "next_timer (store_channel s u i v m) = next_timer s"
  "sleeping (store_channel s u i v m) = sleeping s"
  "host (store_channel s u i v m) = host s"
  "port (store_channel s u i v m) = port s"
  "sendAll (store_channel s u i v m) = sendAll s"
  by (simp_all add: store_channel_def Let_def split: option.split)

lemma store_values_frame [simp]:
  "throttled (store_values s u c i vs) = throttled s"
  "sent (store_values s u c i vs) = sent s"
  "interval (store_values s u c i vs) = interval s"
  "timers (store_values s u c i vs) = timers s"
  "next_timer (store_values s u c i vs) = next_timer s"
  "sleeping (store_values s u c i vs) = sleeping s"
  "host (store_values s u c i vs) = host s"
  "port (store_values s u c i vs) = port s"
  "sendAll (store_values s u c i vs) = sendAll s"
  by (induction s u c i vs rule: store_values.induct; simp)+

lemma ensure_universe_frame [simp]:
  "throttled (ensure_universe s u) = throttled s"
  "sent (ensure_universe s u) = sent s"
  "interval (ensure_universe s u) = interval s"
  "timers (ensure_universe s u) = timers s"
  "next_timer (ensure_universe s u) = next_timer s"
  "sleeping (ensure_universe s u) = sleeping s"
  "host (ensure_universe s u) = host s"
  "port (ensure_universe s u) = port s"
  "sendAll (ensure_universe s u) = sendAll s"
  by (simp_all add: ensure_universe_def Let_def split: option.split)

lemma set_buffer_frame [simp]:
  "throttled (set_buffer s val c u) = throttled s"
  "sent (set_buffer s val c u) = sent s"
  "interval (set_buffer s val c u) = interval s"
  "timers (set_buffer s val c u) = timers s"
  "next_timer (set_buffer s val c u) = next_timer s"
  "sleeping (set_buffer s val c u) = sleeping s"
  "host (set_buffer s val c u) = host s"
  "port (set_buffer s val c u) = port s"
  "sendAll (set_buffer s val c u) = sendAll s"
  by (simp_all add: set_buffer_def Let_def split: jsvalue.split)

lemma artdmxPackage_state:
  "snd (artdmxPackage s u l) =
     (case arr_get (data s) u of
        None \<Rightarrow> s\<lparr>data := arr_set (data s) u (arr_fill 512 0)\<rparr>
      | Some a \<Rightarrow> s)"
  by (simp add: artdmxPackage_def Let_def split: option.split)

lemma close_fold_frame:
  "data (fold (\<lambda>i t. case arr_get (interval t) (int i) of
                        None \<Rightarrow> t | Some h \<Rightarrow> clearInterval t h) xs s) = data s
   \<and> dataChanged (fold (\<lambda>i t. case arr_get (interval t) (int i) of
                        None \<Rightarrow> t | Some h \<Rightarrow> clearInterval t h) xs s) = dataChanged s"
  by (induction xs arbitrary: s) (simp_all add: clearInterval_def split: option.split)

lemma close_frame [simp]:
  "data (close s) = data s" "dataChanged (close s) = dataChanged s"
  by (simp_all add: close_def close_fold_frame)

lemma send_busy:
  "arr_get (throttled s) u = Some True \<Longrightarrow>
     send s u r = (Rejected (RangeError ''Call already pending''), refreshInterval s u)"
  by (simp add: send_def Let_def)

subsection \<open>Every buffer of a reachable client is well formed\<close>

lemma buffer_ok_fill: "buffer_ok (arr_fill 512 0)"
  by (simp add: buffer_ok_def)

lemma buffer_ok_set: "buffer_ok a \<Longrightarrow> buffer_ok (arr_set a i v)"
  using alength_arr_set_ge [of a i v] by (simp add: buffer_ok_def)

lemma data_inv_update:
  "data_inv s \<Longrightarrow> buffer_ok a \<Longrightarrow> data s' = arr_set (data s) u a \<Longrightarrow> data_inv s'"
  by (simp add: data_inv_def)

lemma data_inv_same: "data_inv s \<Longrightarrow> data s' = data s \<Longrightarrow> data_inv s'"
  by (simp add: data_inv_def)

lemma data_inv_store_channel: "data_inv s \<Longrightarrow> data_inv (store_channel s u i v m)"
proof (cases "arr_get (data s) u")
  case None
  assume "data_inv s"
  with None show ?thesis by (simp add: store_channel_def)
next
  case (Some a)
  assume inv: "data_inv s"
  then have ok: "buffer_ok (arr_set a i v)"
    using Some by (simp add: data_inv_def buffer_ok_set)
  have "data (store_channel s u i v m) = data s
      \<or> data (store_channel s u i v m) = arr_set (data s) u (arr_set a i v)"
    using Some by (simp add: store_channel_def Let_def split: option.split)
  then show ?thesis
    using inv ok data_inv_update data_inv_same by blast
qed

lemma data_inv_store_values: "data_inv s \<Longrightarrow> data_inv (store_values s u c i vs)"
  by (induction s u c i vs rule: store_values.induct) (simp_all add: data_inv_store_channel)

lemma data_inv_ensure_universe: "data_inv s \<Longrightarrow> data_inv (ensure_universe s u)"
proof -
  assume inv: "data_inv s"
  define s1 where "s1 = (case arr_get (data s) u of
                  None \<Rightarrow> s\<lparr>data := arr_set (data s) u (arr_fill 512 0)\<rparr>
                | Some a \<Rightarrow> s)"
  have "data_inv s1"
    using inv buffer_ok_fill unfolding s1_def
    by (auto split: option.split intro: data_inv_update [of s])
  moreover have "data (ensure_universe s u) = data s1"
    by (simp add: ensure_universe_def Let_def s1_def)
  ultimately show ?thesis
    by (rule data_inv_same)
qed

lemma data_inv_set_buffer: "data_inv s \<Longrightarrow> data_inv (set_buffer s val c u)"
  by (simp add: set_buffer_def Let_def data_inv_ensure_universe data_inv_store_values
        data_inv_store_channel split: jsvalue.split)

lemma data_inv_artdmxPackage: "data_inv s \<Longrightarrow> data_inv (snd (artdmxPackage s u l))"
  using buffer_ok_fill
  by (auto simp: artdmxPackage_state split: option.split intro: data_inv_update [of s])

lemma send_data:
  "data (snd (send s u r)) = data s
   \<or> data (snd (send s u r)) = arr_set (data s) u (arr_fill 512 0)"
  by (simp add: send_def Let_def split_beta artdmxPackage_state split: option.split)

lemma data_inv_send: "data_inv s \<Longrightarrow> data_inv (snd (send s u r))"
  using send_data [of s u r] buffer_ok_fill data_inv_update data_inv_same by blast

lemma data_inv_step: "data_inv s \<Longrightarrow> data_inv (step s e)"
proof (cases e)
  case (Set val c u)
  assume "data_inv s"
  then show ?thesis
    using Set by (simp add: step_def set_artnet_def Let_def data_inv_set_buffer data_inv_send)
next
  case (Tick i)
  assume "data_inv s"
  then show ?thesis
    using Tick by (simp add: step_def data_inv_send split: option.split)
qed (auto simp: step_def setHost_def setPort_def trigger_def wake_def Let_def
       data_inv_send data_inv_artdmxPackage intro: data_inv_same)

lemma data_inv_new: "data_inv (Artnet_new c)"
  by (simp add: data_inv_def Artnet_new_def)

lemma reachable_data_inv: "reachable s \<Longrightarrow> data_inv s"
  by (induction rule: reachable.induct) (simp_all add: data_inv_new data_inv_step)

subsection \<open>The bytes of a data frame\<close>

lemma js_rem_2: "(js_rem n 2 \<noteq> 0) = odd n"
proof -
  have "\<bar>n\<bar> mod 2 = (if even n then 0 else 1)"
    by (simp add: mod2_eq_if)
  then show ?thesis
    by (cases "n = 0") (simp_all add: js_rem_def sgn_if)
qed

lemma and_255: "(x::int) AND 255 = x mod 256"
proof -
  have m: "(255::int) = mask 8" by (simp add: mask_eq_exp_minus_1)
  show ?thesis unfolding m by (simp add: take_bit_eq_mask [symmetric] take_bit_eq_mod)
qed

lemma drop_bit_8: "drop_bit 8 (x::int) = x div 256"
  by (simp add: drop_bit_eq_div)

lemma hi_lo_16: "(drop_bit 8 (x::int) AND 255) * 256 + (x AND 255) = x mod 65536"
proof -
  have "x mod (256 * 256) = 256 * (x div 256 mod 256) + x mod 256"
    by (rule zmod_zmult2_eq) simp
  then show ?thesis by (simp add: and_255 drop_bit_8)
qed

lemma uint_to_byte: "uint (to_byte (Some v)) = v mod 256"
  by (simp add: to_byte_def and_255 uint_word_of_int)

lemma artdmxPackage_bytes:
  "fst (artdmxPackage s u (Some n)) =
     map to_byte (map Some [65, 114, 116, 45, 78, 101, 116, 0, 0, 80, 0, 14, 0, 0,
         u AND 255, drop_bit 8 u AND 255, drop_bit 8 (round_even n) AND 255, round_even n AND 255])
     @ map to_byte (arr_slice0 (buffer_of s u) (nat (round_even n mod 65536)))"
  by (simp add: artdmxPackage_def Let_def Buffer_from_def js_rem_2 round_even_def buffer_of_def hi_lo_16
        split: option.split)

lemma artdmxPackage_default: "fst (artdmxPackage s u None) = fst (artdmxPackage s u (Some 2))"
  by (simp add: artdmxPackage_def)


lemma buffer_of_ok: "data_inv s \<Longrightarrow> buffer_ok (buffer_of s u)"
  by (simp add: buffer_of_def data_inv_def buffer_ok_fill split: option.split)

lemma buffer_ok_entry: "buffer_ok a \<Longrightarrow> 0 \<le> i \<Longrightarrow> i < 512 \<Longrightarrow> \<exists>v. arr_get a i = Some v"
  by (auto simp: buffer_ok_def)

lemma length_arr_slice0 [simp]: "length (arr_slice0 a e) = min e (alength a)"
  by (simp add: arr_slice0_def)

lemma nth_arr_slice0: "k < min e (alength a) \<Longrightarrow> arr_slice0 a e ! k = arr_get a (int k)"
  by (simp add: arr_slice0_def arr_get_def)

lemma artdmxPackage_length:
  "length (fst (artdmxPackage s u (Some n)))
     = 18 + min (nat (round_even n mod 65536)) (alength (buffer_of s u))"
  by (simp add: artdmxPackage_bytes)

lemma artdmxPackage_header:
  "map uint (take 18 (fst (artdmxPackage s u (Some n)))) =
     [65, 114, 116, 45, 78, 101, 116, 0, 0, 80, 0, 14, 0, 0,
      u mod 256, u div 256 mod 256, round_even n div 256 mod 256, round_even n mod 256]"
  by (simp add: artdmxPackage_bytes uint_to_byte and_255 drop_bit_8)

lemma artdmxPackage_payload_nth:
  assumes "k < min (nat (round_even n mod 65536)) (alength (buffer_of s u))"
  shows "fst (artdmxPackage s u (Some n)) ! (18 + k) = to_byte (channel_value s u (int k + 1))"
proof -
  have "fst (artdmxPackage s u (Some n)) ! (18 + k)
          = map to_byte (arr_slice0 (buffer_of s u) (nat (round_even n mod 65536))) ! k"
    unfolding artdmxPackage_bytes by (simp add: nth_append)
  also have "\<dots> = to_byte (arr_get (buffer_of s u) (int k))"
    using assms by (simp add: nth_arr_slice0)
  finally show ?thesis by (simp add: channel_value_def)
qed

lemma reachable_run: "reachable s \<Longrightarrow> reachable (run s es)"
  unfolding run_def
  by (induction es arbitrary: s) (simp_all add: reachable_step)

lemma reachable_client0: "reachable client0"
  by (simp add: client0_def reachable_new)

lemma artdmxPackage_fst_buffer:
  "buffer_of s u = buffer_of s' u \<Longrightarrow> fst (artdmxPackage s u l) = fst (artdmxPackage s' u l)"
  by (cases l) (simp_all add: artdmxPackage_default artdmxPackage_bytes)

lemma buffer_of_artdmxPackage [simp]:
  "buffer_of (snd (artdmxPackage s u l)) u' = buffer_of s u'"
  by (simp add: artdmxPackage_state buffer_of_def split: option.split)

lemma artdmxPackage_payload_eq:
  "drop 18 (fst (artdmxPackage s u (Some n))) =
     map (\<lambda>j. to_byte (channel_value s u (int j + 1)))
       [0..<min (nat (round_even n mod 65536)) (alength (buffer_of s u))]"
  by (simp add: artdmxPackage_bytes arr_slice0_def channel_value_def arr_get_def)

lemma artdmxPackage_length_field:
  "length_field (fst (artdmxPackage s u (Some n))) = round_even n mod 65536"
proof -
  let ?f = "fst (artdmxPackage s u (Some n))"
  have "?f ! 16 = to_byte (Some (drop_bit 8 (round_even n) AND 255))"
   and "?f ! 17 = to_byte (Some (round_even n AND 255))"
    unfolding artdmxPackage_bytes by simp_all
  then have "length_field ?f = (drop_bit 8 (round_even n) AND 255) * 256 + (round_even n AND 255)"
    by (simp add: length_field_def uint_to_byte and_255)
  then show ?thesis
    by (simp only: hi_lo_16)
qed

lemma to_byte_zero: "to_byte (Some 0) = 0"
  by (simp add: to_byte_def)

lemma data_client0 [simp]: "arr_get (data client0) u = None"
  by (simp add: client0_def Artnet_new_def)

lemma buffer_of_send [simp]: "buffer_of (snd (send s u r)) u' = buffer_of s u'"
  by (simp add: send_def Let_def split_beta buffer_of_def artdmxPackage_state split: option.split)

lemma buffer_of_set_artnet:
  "buffer_of (snd (set_artnet s val c u)) u' = buffer_of (set_buffer s val c u) u'"
  by (simp add: set_artnet_def Let_def)

lemma run_Cons [simp]: "run s (e # es) = run (step s e) es"
  by (simp add: run_def)

lemma run_Nil [simp]: "run s [] = s"
  by (simp add: run_def)

lemma buffer_of_data_cong: "data s = data s' \<Longrightarrow> buffer_of s u = buffer_of s' u"
  by (simp add: buffer_of_def)

lemma artdmxPackage_frame_fields [simp]:
  "dataChanged (snd (artdmxPackage s u l)) = dataChanged s"
  "throttled (snd (artdmxPackage s u l)) = throttled s"
  "interval (snd (artdmxPackage s u l)) = interval s"
  "timers (snd (artdmxPackage s u l)) = timers s"
  "sent (snd (artdmxPackage s u l)) = sent s"
  "port (snd (artdmxPackage s u l)) = port s"
  "host (snd (artdmxPackage s u l)) = host s"
  "sleeping (snd (artdmxPackage s u l)) = sleeping s"
  by (simp_all add: artdmxPackage_state split: option.split)

lemma send_idle:
  assumes "arr_get (throttled s) u \<noteq> Some True"
  shows "fst (send s u r) = Socket_promise"
    and "sent (snd (send s u r)) =
           sent s @ [(fst (artdmxPackage s u
                            (if sendAll s \<or> r then Some 512 else arr_get (dataChanged s) u)),
                      port s, host s)]"
    and "dataChanged (snd (send s u r)) = arr_set (dataChanged s) u 0"
    and "throttled (snd (send s u r)) = arr_set (throttled s) u True"
proof -
  let ?s2 = "(refreshInterval s u)\<lparr>throttled := arr_set (throttled s) u True\<rparr>"
  have b: "buffer_of ?s2 u = buffer_of s u"
    by (rule buffer_of_data_cong) simp
  have f: "fst (artdmxPackage ?s2 u l) = fst (artdmxPackage s u l)" for l
    by (rule artdmxPackage_fst_buffer [OF b])
  show "fst (send s u r) = Socket_promise"
    using assms by (simp add: send_def Let_def split_beta)
  show "sent (snd (send s u r)) =
           sent s @ [(fst (artdmxPackage s u
                            (if sendAll s \<or> r then Some 512 else arr_get (dataChanged s) u)),
                      port s, host s)]"
    using assms by (simp add: send_def Let_def split_beta f)
  show "dataChanged (snd (send s u r)) = arr_set (dataChanged s) u 0"
    using assms by (simp add: send_def Let_def split_beta)
  show "throttled (snd (send s u r)) = arr_set (throttled s) u True"
    using assms by (simp add: send_def Let_def split_beta)
qed

lemma set_wide_facts:
  "arr_get (throttled (set_buffer client0 (Num 1) 65535 0)) 0 \<noteq> Some True"
  "\<not> sendAll (set_buffer client0 (Num 1) 65535 0)"
  "arr_get (dataChanged (set_buffer client0 (Num 1) 65535 0)) 0 = Some 65535"
  by (simp_all add: set_buffer_def ensure_universe_def store_channel_def client0_def
        Artnet_new_def default_config_def Let_def)

subsection \<open>Watermarks and buffers, step by step\<close>

lemma ensure_universe_data:
  "arr_get (data (ensure_universe s u)) u' =
     (if u' = u then Some (buffer_of s u) else arr_get (data s) u')"
  by (simp add: ensure_universe_def Let_def buffer_of_def split: option.split)

lemma buffer_of_ensure_universe [simp]: "buffer_of (ensure_universe s u) u' = buffer_of s u'"
  by (simp add: buffer_of_def ensure_universe_data)

lemma ensure_universe_dataChanged:
  "arr_get (dataChanged (ensure_universe s u)) u' =
     (if u' = u then Some (case arr_get (dataChanged s) u of None \<Rightarrow> 0 | Some w \<Rightarrow> w)
      else arr_get (dataChanged s) u')"
  by (simp add: ensure_universe_def Let_def split: option.split)

lemma store_channel_eval:
  "arr_get (data s) u = Some a \<Longrightarrow> arr_get (dataChanged s) u = Some w \<Longrightarrow>
   store_channel s u i v m =
     (if arr_get a i \<noteq> Some v
      then (if m > w
            then s\<lparr>data := arr_set (data s) u (arr_set a i v),
                   dataChanged := arr_set (dataChanged s) u m\<rparr>
            else s\<lparr>data := arr_set (data s) u (arr_set a i v)\<rparr>)
      else s)"
  by (simp add: store_channel_def Let_def)

lemma store_channel_same:
  "arr_get (data s) u = Some a \<Longrightarrow> arr_get a i = Some v \<Longrightarrow> store_channel s u i v m = s"
  by (simp add: store_channel_def)

lemma store_channel_dataChanged:
  "arr_get (dataChanged (store_channel s u i v m)) u' = arr_get (dataChanged s) u'
   \<or> (u' = u \<and> arr_get (dataChanged (store_channel s u i v m)) u' = Some m)"
  by (simp add: store_channel_def Let_def split: option.split)

lemma store_channel_dataChanged_other:
  "u' \<noteq> u \<Longrightarrow> arr_get (dataChanged (store_channel s u i v m)) u' = arr_get (dataChanged s) u'"
  using store_channel_dataChanged [of s u i v m u'] by simp

lemma store_values_dataChanged_other:
  "u' \<noteq> u \<Longrightarrow> arr_get (dataChanged (store_values s u c i vs)) u' = arr_get (dataChanged s) u'"
  by (induction s u c i vs rule: store_values.induct)
     (simp_all add: store_channel_dataChanged_other)

lemma set_buffer_dataChanged_other:
  "u' \<noteq> u \<Longrightarrow> arr_get (dataChanged (set_buffer s val c u)) u' = arr_get (dataChanged s) u'"
  by (simp add: set_buffer_def Let_def store_values_dataChanged_other
        store_channel_dataChanged_other ensure_universe_dataChanged split: jsvalue.split)

lemma artdmxPackage_frame_more [simp]:
  "sendAll (snd (artdmxPackage s u l)) = sendAll s"
  "next_timer (snd (artdmxPackage s u l)) = next_timer s"
  by (simp_all add: artdmxPackage_state split: option.split)

lemma send_frame [simp]:
  "sendAll (snd (send s u r)) = sendAll s"
  "port (snd (send s u r)) = port s"
  "host (snd (send s u r)) = host s"
  by (simp_all add: send_def Let_def split_beta)

lemma send_dataChanged:
  "arr_get (dataChanged (snd (send s u r))) u' = arr_get (dataChanged s) u'
   \<or> (u' = u \<and> arr_get (throttled s) u \<noteq> Some True
        \<and> arr_get (dataChanged (snd (send s u r))) u' = Some 0)"
  by (cases "arr_get (throttled s) u = Some True") (simp_all add: send_busy send_idle)

lemma send_sent:
  "sent (snd (send s u r)) =
     (if arr_get (throttled s) u = Some True then sent s
      else sent s @ [(fst (artdmxPackage s u
                            (if sendAll s \<or> r then Some 512 else arr_get (dataChanged s) u)),
                      port s, host s)])"
  by (simp add: send_busy send_idle)

lemma send_fst:
  "fst (send s u r) =
     (if arr_get (throttled s) u = Some True
      then Rejected (RangeError ''Call already pending'') else Socket_promise)"
  by (simp add: send_busy send_idle)

lemma send_sleeping:
  "sleeping (snd (send s u r)) =
     (if arr_get (throttled s) u = Some True then sleeping s else sleeping s @ [u])"
  by (simp add: send_def Let_def split_beta)

lemma send_throttled:
  "arr_get (throttled (snd (send s u r))) u' =
     (if u' = u then Some True else arr_get (throttled s) u')"
  by (cases "arr_get (throttled s) u = Some True") (auto simp: send_busy send_idle)

lemma set_artnet_cases:
  "\<not> truthy (arr_get (dataChanged (set_buffer s val c u)) u) \<Longrightarrow>
     set_artnet s val c u = (Resolved_null, set_buffer s val c u)"
  "truthy (arr_get (dataChanged (set_buffer s val c u)) u) \<Longrightarrow>
     set_artnet s val c u = send (set_buffer s val c u) u False"
  by (simp_all add: set_artnet_def Let_def)


lemma le512_store_channel:
  "watermark_le512 s u' \<Longrightarrow> m \<le> 512 \<Longrightarrow> watermark_le512 (store_channel s u i v m) u'"
  using store_channel_dataChanged [of s u i v m u']
  by (auto simp: watermark_le512_def)

lemma le512_store_values:
  "watermark_le512 s u' \<Longrightarrow> vs = [] \<or> c + i + int (length vs) - 1 \<le> 512 \<Longrightarrow>
   watermark_le512 (store_values s u c i vs) u'"
proof (induction vs arbitrary: s i)
  case Nil
  then show ?case by simp
next
  case (Cons v vs)
  from Cons.prems(2) have m: "c + i - 1 + 1 \<le> 512"
    by simp
  from Cons.prems(2) have rest: "vs = [] \<or> c + (i + 1) + int (length vs) - 1 \<le> 512"
    by simp
  have "watermark_le512 (store_channel s u (c + i - 1) v (c + i - 1 + 1)) u'"
    using Cons.prems(1) m by (rule le512_store_channel)
  then show ?case
    using rest by (simp add: Cons.IH)
qed

lemma le512_ensure_universe:
  "watermark_le512 s u' \<Longrightarrow> watermark_le512 (ensure_universe s u) u'"
  by (auto simp: watermark_le512_def ensure_universe_dataChanged split: option.splits)

lemma le512_send: "watermark_le512 s u' \<Longrightarrow> watermark_le512 (snd (send s u r)) u'"
  using send_dataChanged [of s u r u'] by (auto simp: watermark_le512_def)

lemma le512_same:
  "watermark_le512 s u' \<Longrightarrow> dataChanged s' = dataChanged s \<Longrightarrow> watermark_le512 s' u'"
  by (simp add: watermark_le512_def)

lemma le512_set_artnet:
  assumes "watermark_le512 s u'" and "within512 u' (Set val c u)"
  shows "watermark_le512 (snd (set_artnet s val c u)) u'"
proof -
  have e: "watermark_le512 (ensure_universe s u) u'"
    using assms(1) by (rule le512_ensure_universe)
  have "watermark_le512 (set_buffer s val c u) u'"
  proof (cases "u' = u")
    case False
    then show ?thesis
      using assms(1) by (simp add: watermark_le512_def set_buffer_dataChanged_other)
  next
    case True
    show ?thesis
    proof (cases val)
      case (Num v)
      with assms(2) True have "c \<le> 512" by (simp add: within512_def)
      with e show ?thesis
        using Num by (simp add: set_buffer_def Let_def le512_store_channel)
    next
      case (Arr vs)
      with assms(2) True have "vs = [] \<or> c + 0 + int (length vs) - 1 \<le> 512"
        by (simp add: within512_def)
      with e have "watermark_le512 (store_values (ensure_universe s u) u c 0 vs) u'"
        by (rule le512_store_values)
      with e show ?thesis
        using Arr by (simp add: set_buffer_def Let_def)
    qed
  qed
  then show ?thesis
    by (simp add: set_artnet_def Let_def le512_send)
qed

lemma le512_step:
  assumes "watermark_le512 s u'" and "within512 u' e"
  shows "watermark_le512 (step s e) u'"
proof (cases e)
  case (Set val c u)
  with assms show ?thesis by (simp add: step_def le512_set_artnet)
next
  case (Tick i)
  with assms show ?thesis by (simp add: step_def le512_send split: option.split)
next
  case (Send u r)
  with assms show ?thesis by (simp add: step_def le512_send)
qed (use assms in \<open>auto simp: step_def setHost_def setPort_def trigger_def wake_def Let_def
       intro: le512_same\<close>)

lemma buffer_of_data_update:
  "buffer_of (s\<lparr>data := arr_set (data s) u a\<rparr>) u' = (if u' = u then a else buffer_of s u')"
  by (simp add: buffer_of_def)

lemma buffer_of_dataChanged_update: "buffer_of (s\<lparr>dataChanged := dc\<rparr>) u' = buffer_of s u'"
  by (simp add: buffer_of_def)

lemma set_buffer_Num_buffer:
  "buffer_of (set_buffer s (Num v) c u) u' =
     (if u' = u \<and> channel_value s u c \<noteq> Some v
      then arr_set (buffer_of s u) (c - 1) v else buffer_of s u')"
proof -
  let ?s2 = "ensure_universe s u"
  let ?w = "case arr_get (dataChanged s) u of None \<Rightarrow> 0 | Some w \<Rightarrow> w"
  have d: "arr_get (data ?s2) u = Some (buffer_of s u)"
    by (simp add: ensure_universe_data)
  have w: "arr_get (dataChanged ?s2) u = Some ?w"
    by (simp add: ensure_universe_dataChanged)
  show ?thesis
    unfolding set_buffer_def Let_def jsvalue.case store_channel_eval [OF d w]
    by (simp add: buffer_of_data_update buffer_of_dataChanged_update channel_value_def)
qed

lemma set_buffer_Num_watermark:
  "arr_get (dataChanged (set_buffer s (Num v) c u)) u =
     Some (let w = (case arr_get (dataChanged s) u of None \<Rightarrow> 0 | Some w \<Rightarrow> w)
           in if channel_value s u c \<noteq> Some v \<and> c > w then c else w)"
proof -
  let ?s2 = "ensure_universe s u"
  let ?w = "case arr_get (dataChanged s) u of None \<Rightarrow> 0 | Some w \<Rightarrow> w"
  have d: "arr_get (data ?s2) u = Some (buffer_of s u)"
    by (simp add: ensure_universe_data)
  have w: "arr_get (dataChanged ?s2) u = Some ?w"
    by (simp add: ensure_universe_dataChanged)
  show ?thesis
    unfolding set_buffer_def Let_def jsvalue.case store_channel_eval [OF d w]
    by (simp add: w channel_value_def)
qed

lemma client0_facts [simp]:
  "arr_get (dataChanged client0) u = None"
  "arr_get (throttled client0) u = None"
  "sent client0 = []"
  "sleeping client0 = []"
  "\<not> sendAll client0"
  "buffer_of client0 u = arr_fill 512 0"
  by (simp_all add: client0_def Artnet_new_def default_config_def buffer_of_def)

lemma client_busy_facts:
  "arr_get (throttled client_busy) 0 = Some True"
  "arr_get (dataChanged client_busy) 0 = Some 0"
  "buffer_of client_busy 0 = arr_set (arr_fill 512 0) 0 255"
  "sleeping client_busy = [0]"
  "length (sent client_busy) = 1"
  "\<not> sendAll client_busy"
proof -
  let ?s1 = "set_buffer client0 (Num 255) 1 0"
  have w: "arr_get (dataChanged ?s1) 0 = Some 1"
    by (simp add: set_buffer_Num_watermark channel_value_def)
  have b: "buffer_of ?s1 0 = arr_set (arr_fill 512 0) 0 255"
    by (simp add: set_buffer_Num_buffer channel_value_def)
  have idle: "arr_get (throttled ?s1) 0 \<noteq> Some True"
    by simp
  have eq: "client_busy = snd (send ?s1 0 False)"
    using w by (simp add: client_busy_def step_def set_artnet_def Let_def truthy_def)
  show "arr_get (throttled client_busy) 0 = Some True"
    unfolding eq by (simp add: send_throttled)
  show "arr_get (dataChanged client_busy) 0 = Some 0"
    unfolding eq by (simp add: send_idle(3) [OF idle])
  show "buffer_of client_busy 0 = arr_set (arr_fill 512 0) 0 255"
    unfolding eq by (simp add: b)
  show "sleeping client_busy = [0]"
    unfolding eq by (simp add: send_sleeping)
  show "length (sent client_busy) = 1"
    unfolding eq by (simp add: send_sent)
  show "\<not> sendAll client_busy"
    unfolding eq by simp
qed


lemma client_behind_facts:
  "arr_get (throttled client_behind) 0 = Some True"
  "arr_get (dataChanged client_behind) 0 = Some 2"
  "buffer_of client_behind 0 = arr_set (arr_set (arr_fill 512 0) 0 255) 1 10"
  "sleeping client_behind = [0]"
  "length (sent client_behind) = 1"
  "\<not> sendAll client_behind"
  "fst (set_artnet client_busy (Num 10) 2 0) = Rejected (RangeError ''Call already pending'')"
proof -
  let ?s1 = "set_buffer client_busy (Num 10) 2 0"
  have w: "arr_get (dataChanged ?s1) 0 = Some 2"
    by (simp add: set_buffer_Num_watermark channel_value_def client_busy_facts)
  have b: "buffer_of ?s1 0 = arr_set (arr_set (arr_fill 512 0) 0 255) 1 10"
    by (simp add: set_buffer_Num_buffer channel_value_def client_busy_facts)
  have busy: "arr_get (throttled ?s1) 0 = Some True"
    by (simp add: client_busy_facts)
  have s: "set_artnet client_busy (Num 10) 2 0 = send ?s1 0 False"
    using w by (simp add: set_artnet_def Let_def truthy_def)
  have eq: "client_behind = refreshInterval ?s1 0"
    by (simp add: client_behind_def step_def s send_busy [OF busy])
  show "arr_get (throttled client_behind) 0 = Some True"
    unfolding eq by (simp add: client_busy_facts)
  show "arr_get (dataChanged client_behind) 0 = Some 2"
    unfolding eq by (simp add: w)
  show "buffer_of client_behind 0 = arr_set (arr_set (arr_fill 512 0) 0 255) 1 10"
    unfolding eq using b by (simp add: buffer_of_def)
  show "sleeping client_behind = [0]"
    unfolding eq by (simp add: client_busy_facts)
  show "length (sent client_behind) = 1"
    unfolding eq by (simp add: client_busy_facts)
  show "\<not> sendAll client_behind"
    unfolding eq by (simp add: client_busy_facts)
  show "fst (set_artnet client_busy (Num 10) 2 0) = Rejected (RangeError ''Call already pending'')"
    by (simp add: s send_busy [OF busy])
qed

lemma client_pending_facts:
  "arr_get (throttled client_pending) 0 = Some False"
  "arr_get (dataChanged client_pending) 0 = Some 2"
  "buffer_of client_pending 0 = arr_set (arr_set (arr_fill 512 0) 0 255) 1 10"
  "sleeping client_pending = []"
  "length (sent client_pending) = 1"
  "\<not> sendAll client_pending"
proof -
  have "buffer_of client_pending 0 = buffer_of client_behind 0"
    by (rule buffer_of_data_cong) (simp add: client_pending_def step_def wake_def)
  then show "buffer_of client_pending 0 = arr_set (arr_set (arr_fill 512 0) 0 255) 1 10"
    by (simp add: client_behind_facts)
qed (simp_all add: client_pending_def step_def wake_def client_behind_facts)

subsection \<open>Sets that store nothing\<close>

lemma store_values_same:
  "arr_get (data s) u = Some a \<Longrightarrow>
   \<forall>k < length vs. arr_get a (c + i + int k - 1) = Some (vs ! k) \<Longrightarrow>
   store_values s u c i vs = s"
proof (induction vs arbitrary: i)
  case Nil
  then show ?case by simp
next
  case (Cons v vs)
  from Cons.prems(2) have "arr_get a (c + i + int 0 - 1) = Some ((v # vs) ! 0)"
    by blast
  then have h: "store_channel s u (c + i - 1) v (c + i - 1 + 1) = s"
    using Cons.prems(1) by (simp add: store_channel_same)
  have "\<forall>k < length vs. arr_get a (c + (i + 1) + int k - 1) = Some (vs ! k)"
  proof (intro allI impI)
    fix k assume "k < length vs"
    then have "Suc k < length (v # vs)" by simp
    with Cons.prems(2) have "arr_get a (c + i + int (Suc k) - 1) = Some ((v # vs) ! Suc k)"
      by blast
    then show "arr_get a (c + (i + 1) + int k - 1) = Some (vs ! k)"
      by (simp add: algebra_simps)
  qed
  with Cons.prems(1) have "store_values s u c (i + 1) vs = s"
    by (rule Cons.IH)
  with h show ?case by simp
qed

lemma set_buffer_quiet:
  assumes "\<not> stores s (Set val c u) u"
  shows "set_buffer s val c u = ensure_universe s u"
proof (cases val)
  case (Num v)
  with assms have "arr_get (buffer_of s u) (c - 1) = Some v"
    by (simp add: stores_def channel_value_def)
  then have "store_channel (ensure_universe s u) u (c - 1) v c = ensure_universe s u"
    by (intro store_channel_same [where a = "buffer_of s u"]) (simp_all add: ensure_universe_data)
  with Num show ?thesis
    by (simp add: set_buffer_def Let_def)
next
  case (Arr vs)
  with assms have "\<forall>k < length vs. arr_get (buffer_of s u) (c + 0 + int k - 1) = Some (vs ! k)"
    by (simp add: stores_def channel_value_def)
  then have "store_values (ensure_universe s u) u c 0 vs = ensure_universe s u"
    by (intro store_values_same [where a = "buffer_of s u"]) (simp_all add: ensure_universe_data)
  with Arr show ?thesis
    by (simp add: set_buffer_def Let_def)
qed

lemma wm0_set_artnet:
  assumes "arr_get (dataChanged s) u = Some 0" and "\<not> stores s (Set val c u') u"
  shows "arr_get (dataChanged (snd (set_artnet s val c u'))) u = Some 0"
proof (cases "u' = u")
  case True
  with assms(2) have "set_buffer s val c u = ensure_universe s u"
    by (simp add: set_buffer_quiet)
  moreover have "arr_get (dataChanged (ensure_universe s u)) u = Some 0"
    using assms(1) by (simp add: ensure_universe_dataChanged)
  ultimately show ?thesis
    using True by (simp add: set_artnet_def Let_def truthy_def)
next
  case False
  then have "arr_get (dataChanged (set_buffer s val c u')) u = Some 0"
    using assms(1) by (simp add: set_buffer_dataChanged_other)
  then show ?thesis
    using send_dataChanged [of "set_buffer s val c u'" u' False u] False
    by (auto simp: set_artnet_def Let_def)
qed

lemma wm0_send:
  "arr_get (dataChanged s) u = Some 0 \<Longrightarrow> arr_get (dataChanged (snd (send s u' r))) u = Some 0"
  using send_dataChanged [of s u' r u] by auto

lemma wm0_step:
  assumes "arr_get (dataChanged s) u = Some 0" and "\<not> stores s e u"
  shows "arr_get (dataChanged (step s e)) u = Some 0"
proof (cases e)
  case (Set val c u')
  with assms show ?thesis by (simp add: step_def wm0_set_artnet)
next
  case (Send u' r)
  with assms show ?thesis by (simp add: step_def wm0_send)
next
  case (Tick i)
  with assms show ?thesis by (simp add: step_def wm0_send split: option.split)
qed (use assms in \<open>simp_all add: step_def setHost_def setPort_def trigger_def wake_def Let_def\<close>)

lemma wm0_run:
  "arr_get (dataChanged s) u = Some 0 \<Longrightarrow> quiet s u es \<Longrightarrow>
   arr_get (dataChanged (run s es)) u = Some 0"
  by (induction es arbitrary: s) (simp_all add: wm0_step)

lemma quiet_take: "quiet s u es \<Longrightarrow> quiet s u (take k es)"
proof (induction es arbitrary: s k)
  case Nil
  then show ?case by simp
next
  case (Cons e es)
  then show ?case by (cases k) simp_all
qed

lemma set_noop:
  assumes "set_buffer s val c u = ensure_universe s u"
  shows "channel_value (snd (set_artnet s val c u)) u' c' = channel_value s u' c'"
    and "arr_get (dataChanged (snd (set_artnet s val c u))) u = Some 0
         \<or> arr_get (dataChanged (snd (set_artnet s val c u))) u = arr_get (dataChanged s) u"
    and "\<not> truthy (arr_get (dataChanged s) u) \<Longrightarrow>
           set_artnet s val c u = (Resolved_null, ensure_universe s u)"
    and "truthy (arr_get (dataChanged s) u) \<Longrightarrow>
           fst (set_artnet s val c u) = fst (send s u False)
         \<and> sent (snd (set_artnet s val c u)) = sent (snd (send s u False))"
proof -
  let ?s2 = "ensure_universe s u"
  show "channel_value (snd (set_artnet s val c u)) u' c' = channel_value s u' c'"
    by (simp add: channel_value_def buffer_of_set_artnet assms)
  have t: "truthy (arr_get (dataChanged ?s2) u) = truthy (arr_get (dataChanged s) u)"
    by (simp add: ensure_universe_dataChanged truthy_def split: option.split)
  show "\<not> truthy (arr_get (dataChanged s) u) \<Longrightarrow>
           set_artnet s val c u = (Resolved_null, ensure_universe s u)"
    by (simp add: set_artnet_def Let_def assms t)
  have w: "arr_get (dataChanged ?s2) u = arr_get (dataChanged s) u"
    if "truthy (arr_get (dataChanged s) u)"
    using that by (auto simp: ensure_universe_dataChanged truthy_def split: option.splits)
  show "fst (set_artnet s val c u) = fst (send s u False)
         \<and> sent (snd (set_artnet s val c u)) = sent (snd (send s u False))"
    if "truthy (arr_get (dataChanged s) u)"
  proof -
    have b: "buffer_of ?s2 u = buffer_of s u"
      by simp
    have "fst (artdmxPackage ?s2 u l) = fst (artdmxPackage s u l)" for l
      by (rule artdmxPackage_fst_buffer [OF b])
    then have "sent (snd (send ?s2 u False)) = sent (snd (send s u False))"
      by (simp add: send_sent w [OF that])
    moreover have "fst (send ?s2 u False) = fst (send s u False)"
      by (simp add: send_fst)
    ultimately show ?thesis
      using that by (simp add: set_artnet_def Let_def assms t)
  qed
  show "arr_get (dataChanged (snd (set_artnet s val c u))) u = Some 0
         \<or> arr_get (dataChanged (snd (set_artnet s val c u))) u = arr_get (dataChanged s) u"
  proof (cases "truthy (arr_get (dataChanged s) u)")
    case True
    then have "set_artnet s val c u = send ?s2 u False"
      by (simp add: set_artnet_def Let_def assms t)
    then show ?thesis
      using send_dataChanged [of ?s2 u False u] w [OF True] by auto
  next
    case False
    then have "arr_get (dataChanged ?s2) u = Some 0"
      by (auto simp: ensure_universe_dataChanged truthy_def split: option.splits)
    with False show ?thesis
      by (simp add: set_artnet_def Let_def assms t truthy_def)
  qed
qed

lemma client_channel_values:
  "channel_value client_busy 0 1 = Some 255"
  "channel_value client_behind 0 2 = Some 10"
  "channel_value client_pending 0 2 = Some 10"
  by (simp_all add: channel_value_def client_busy_facts client_behind_facts client_pending_facts)

lemma client_pending_set_sends:
  assumes "set_buffer client_pending val c 0 = ensure_universe client_pending 0"
  shows "fst (set_artnet client_pending val c 0) = Socket_promise"
    and "length (sent (snd (set_artnet client_pending val c 0))) = 2"
    and "arr_get (dataChanged (snd (set_artnet client_pending val c 0))) 0 = Some 0"
    and "arr_get (throttled (snd (set_artnet client_pending val c 0))) 0 = Some True"
proof -
  let ?s2 = "ensure_universe client_pending 0"
  have w: "arr_get (dataChanged ?s2) 0 = Some 2"
    by (simp add: ensure_universe_dataChanged client_pending_facts)
  have idle: "arr_get (throttled ?s2) 0 \<noteq> Some True"
    by (simp add: client_pending_facts)
  have eq: "set_artnet client_pending val c 0 = send ?s2 0 False"
    by (simp add: set_artnet_def Let_def assms w truthy_def)
  show "fst (set_artnet client_pending val c 0) = Socket_promise"
    unfolding eq by (rule send_idle(1) [OF idle])
  show "length (sent (snd (set_artnet client_pending val c 0))) = 2"
    unfolding eq by (simp add: send_idle(2) [OF idle] client_pending_facts)
  show "arr_get (dataChanged (snd (set_artnet client_pending val c 0))) 0 = Some 0"
    unfolding eq by (simp add: send_idle(3) [OF idle])
  show "arr_get (throttled (snd (set_artnet client_pending val c 0))) 0 = Some True"
    unfolding eq by (simp add: send_throttled)
qed

subsection \<open>The payload a send hands over\<close>

lemma artdmxPackage_payload_field:
  "drop 18 (fst (artdmxPackage s u l)) =
     map (\<lambda>j. to_byte (channel_value s u (int j + 1)))
       [0..<min (nat (length_field (fst (artdmxPackage s u l)))) (alength (buffer_of s u))]"
proof (cases l)
  case None
  show ?thesis
    unfolding None artdmxPackage_default
    by (simp only: artdmxPackage_payload_eq artdmxPackage_length_field)
next
  case (Some n)
  show ?thesis
    unfolding Some
    by (simp only: artdmxPackage_payload_eq artdmxPackage_length_field)
qed

lemma reachable_buffer_length: "reachable s \<Longrightarrow> 512 \<le> alength (buffer_of s u)"
  using reachable_data_inv [of s] buffer_of_ok [of s u] by (simp add: buffer_ok_def)

lemma payload_length_le:
  assumes "drop 18 buf = map f [0..<min (nat k) a]" and "512 \<le> a" and "k \<le> 512"
  shows "length (drop 18 buf) = nat k"
proof -
  from assms(2,3) have "min (nat k) a = nat k" by linarith
  with assms(1) show ?thesis by simp
qed

lemma reachable_client_pending: "reachable client_pending"
  unfolding client_pending_def client_behind_def client_busy_def
  by (intro reachable_step reachable_client0)

lemma client_pending_payload:
  "map (\<lambda>j. to_byte (channel_value client_pending 0 (int j + 1)))
     [0..<min (nat 2) (alength (buffer_of client_pending 0))] = [255, 10]"
proof -
  have "alength (buffer_of client_pending 0) = 512"
    by (simp add: client_pending_facts arr_set_def is_index_def)
  moreover have "[0..<2] = [0, Suc 0]"
    by (simp add: upt_rec)
  moreover have "to_byte (Some 255) = 255" "to_byte (Some 10) = 10"
    by (simp_all add: to_byte_def)
  ultimately show ?thesis
    by (simp add: channel_value_def client_pending_facts)
qed

section \<open>A send while the universe is throttled\<close>

text \<open>
  Claim C2. When \<^verbatim>\<open>throttled[u]\<close> is true, \<^verbatim>\<open>send\<close> rejects at once with the error
  ``Call already pending'' (the spec's Busy), and afterwards every channel buffer and
  every watermark is what it was before the call and the list of datagrams handed to
  the socket has not grown. A \<^verbatim>\<open>set\<close> that ends in such a send keeps what it wrote: its
  result is the same rejection and the buffers and watermarks are those its own writes
  produced.
\<close>

theorem send_throttled_busy:
  assumes "arr_get (throttled s) u = Some True"
  shows "fst (send s u r) = Rejected (RangeError ''Call already pending'')
       \<and> data (snd (send s u r)) = data s
       \<and> dataChanged (snd (send s u r)) = dataChanged s
       \<and> sent (snd (send s u r)) = sent s
       \<and> (truthy (arr_get (dataChanged (set_buffer s val c u)) u) \<longrightarrow>
            fst (set_artnet s val c u) = Rejected (RangeError ''Call already pending'')
          \<and> data (snd (set_artnet s val c u)) = data (set_buffer s val c u)
          \<and> dataChanged (snd (set_artnet s val c u)) = dataChanged (set_buffer s val c u)
          \<and> sent (snd (set_artnet s val c u)) = sent s)"
  using assms by (simp add: send_busy set_artnet_def Let_def)

theorem send_throttled_busy_witness:
  "fst (send (run client0 [Set (Num 255) 1 0]) 0 False)
     = Rejected (RangeError ''Call already pending'')
   \<and> sent (snd (send (run client0 [Set (Num 255) 1 0]) 0 False))
     = sent (run client0 [Set (Num 255) 1 0])
   \<and> fst (set_artnet (run client0 [Set (Num 255) 1 0]) (Num 10) 2 0)
     = Rejected (RangeError ''Call already pending'')
   \<and> arr_get (dataChanged (snd (set_artnet (run client0 [Set (Num 255) 1 0]) (Num 10) 2 0))) 0
     = Some 2"
proof -
  have busy: "arr_get (throttled (run client0 [Set (Num 255) 1 0])) 0 = Some True"
    by code_simp
  have mark: "arr_get (dataChanged (set_buffer (run client0 [Set (Num 255) 1 0]) (Num 10) 2 0)) 0
                = Some 2"
    by code_simp
  show ?thesis
    using send_throttled_busy [OF busy, of False "Num 10" 2] mark
    by (simp add: truthy_def)
qed

section \<open>Changing the destination port\<close>

text \<open>
  Claim C9. \<^verbatim>\<open>setPort\<close> fails (throws) exactly when the current host is the broadcast
  address \<^verbatim>\<open>255.255.255.255\<close>. When it fails the client is left as it was, port
  included. When it does not fail the port becomes the requested one and no other
  field changes.
\<close>

theorem setPort_broadcast:
  "(isl (fst (setPort s p)) \<longleftrightarrow> host s = broadcast)
   \<and> (host s = broadcast \<longrightarrow> snd (setPort s p) = s)
   \<and> (host s \<noteq> broadcast \<longrightarrow>
        fst (setPort s p) = Inr () \<and> snd (setPort s p) = s\<lparr>port := p\<rparr>)"
  by (simp add: setPort_def broadcast_def)

theorem setPort_broadcast_witness:
  "isl (fst (setPort client0 7000))
   \<and> snd (setPort client0 7000) = client0
   \<and> fst (setPort (setHost client0 ''10.0.0.7'') 7000) = Inr ()
   \<and> snd (setPort (setHost client0 ''10.0.0.7'') 7000) = (setHost client0 ''10.0.0.7'')\<lparr>port := 7000\<rparr>"
proof -
  have bc: "host client0 = broadcast"
    by (simp add: client0_def Artnet_new_def default_config_def)
  have other: "host (setHost client0 ''10.0.0.7'') \<noteq> broadcast"
    by (simp add: setHost_def broadcast_def)
  show ?thesis
    using setPort_broadcast [of client0 7000]
          setPort_broadcast [of "setHost client0 ''10.0.0.7''" 7000] bc other
    by simp
qed

section \<open>The data frame\<close>

text \<open>
  Claim C1, as amended. For a client reached by any run, a universe \<open>u\<close> from 0 to
  32767 and an even length \<open>L\<close> from 2 to 512, \<^verbatim>\<open>artdmxPackage\<close> returns exactly
  \<open>18 + L\<close> bytes: the protocol id ``Art-Net'' and NUL, the opcode bytes 0x00 0x50,
  the version bytes 0x00 0x0E, sequence 0, physical 0, \<open>u & 0xFF\<close>, \<open>(u >> 8) & 0xFF\<close>,
  then \<open>L\<close> high byte first, so the announced length is the number of payload bytes.
  Payload byte \<open>k\<close> is the number stored for channel \<open>k + 1\<close> taken modulo 256: it is
  the stored number itself exactly when that lies between 0 and 255.
\<close>

theorem artdmxPackage_frame:
  assumes "reachable s" and "0 \<le> u" and "u \<le> 32767"
      and "2 \<le> L" and "L \<le> 512" and "even L"
  shows "length (fst (artdmxPackage s u (Some L))) = 18 + nat L
       \<and> map uint (take 18 (fst (artdmxPackage s u (Some L)))) =
           [65, 114, 116, 45, 78, 101, 116, 0, 0, 80, 0, 14, 0, 0,
            u AND 255, (drop_bit 8 u) AND 255, L div 256, L mod 256]
       \<and> length_field (fst (artdmxPackage s u (Some L))) = L
       \<and> (\<forall>k < nat L. \<exists>v. channel_value s u (int k + 1) = Some v
              \<and> uint (fst (artdmxPackage s u (Some L)) ! (18 + k)) = v mod 256)"
proof -
  let ?f = "fst (artdmxPackage s u (Some L))"
  have re: "round_even L = L"
    using \<open>even L\<close> by (simp add: round_even_def)
  have ok: "buffer_ok (buffer_of s u)"
    using \<open>reachable s\<close> by (simp add: reachable_data_inv buffer_of_ok)
  then have "512 \<le> alength (buffer_of s u)"
    by (simp add: buffer_ok_def)
  then have "nat L \<le> alength (buffer_of s u)"
    using \<open>L \<le> 512\<close> by linarith
  then have len: "min (nat (round_even L mod 65536)) (alength (buffer_of s u)) = nat L"
    using \<open>2 \<le> L\<close> \<open>L \<le> 512\<close> by (simp add: re)
  have "L div 256 < 256"
    using \<open>L \<le> 512\<close> by simp
  then have hi: "L div 256 mod 256 = L div 256"
    using \<open>2 \<le> L\<close> by simp
  have c1: "length ?f = 18 + nat L"
    using len by (simp add: artdmxPackage_length)
  have c2: "map uint (take 18 ?f) =
           [65, 114, 116, 45, 78, 101, 116, 0, 0, 80, 0, 14, 0, 0,
            u AND 255, (drop_bit 8 u) AND 255, L div 256, L mod 256]"
    unfolding artdmxPackage_header by (simp add: re hi and_255 drop_bit_8)
  have c3: "length_field ?f = L"
  proof -
    have "?f ! 16 = to_byte (Some (drop_bit 8 (round_even L) AND 255))"
     and "?f ! 17 = to_byte (Some (round_even L AND 255))"
      unfolding artdmxPackage_bytes by simp_all
    then show ?thesis
      by (simp add: length_field_def uint_to_byte and_255 drop_bit_8 re hi)
  qed
  have c4: "\<exists>v. channel_value s u (int k + 1) = Some v \<and> uint (?f ! (18 + k)) = v mod 256"
    if "k < nat L" for k
  proof -
    from that have k512: "int k < 512"
      using \<open>L \<le> 512\<close> by simp
    then have "\<exists>v. arr_get (buffer_of s u) (int k) = Some v"
      using ok by (intro buffer_ok_entry) simp_all
    then obtain v where v: "channel_value s u (int k + 1) = Some v"
      by (auto simp: channel_value_def)
    have "?f ! (18 + k) = to_byte (channel_value s u (int k + 1))"
      using that len by (simp add: artdmxPackage_payload_nth)
    with v show ?thesis
      by (simp add: uint_to_byte)
  qed
  from c1 c2 c3 c4 show ?thesis by blast
qed

theorem artdmxPackage_frame_witness:
  "length (fst (artdmxPackage (run client0 [Set (Num 255) 1 0]) 0 (Some 2))) = 20
   \<and> map uint (take 18 (fst (artdmxPackage (run client0 [Set (Num 255) 1 0]) 0 (Some 2))))
       = [65, 114, 116, 45, 78, 101, 116, 0, 0, 80, 0, 14, 0, 0, 0, 0, 0, 2]
   \<and> (\<exists>v. channel_value (run client0 [Set (Num 255) 1 0]) 0 1 = Some v
         \<and> uint (fst (artdmxPackage (run client0 [Set (Num 255) 1 0]) 0 (Some 2)) ! 18) = v mod 256)"
proof -
  have r: "reachable (run client0 [Set (Num 255) 1 0])"
    by (rule reachable_run [OF reachable_client0])
  have "(0::nat) < nat 2" by simp
  with artdmxPackage_frame [OF r, of 0 2] show ?thesis
    by fastforce
qed

text \<open>
  The claim as written fails on a number outside 0 to 255, which \<^verbatim>\<open>set\<close> stores
  unchanged: after \<^verbatim>\<open>set(300, 1, 0)\<close> channel 1 of universe 0 holds 300 and the first
  payload byte is 44.
\<close>

theorem artdmxPackage_frame_counterexample:
  "channel_value (run client0 [Set (Num 300) 1 0]) 0 1 = Some 300
   \<and> uint (fst (artdmxPackage (run client0 [Set (Num 300) 1 0]) 0 (Some 2)) ! 18) = 44
   \<and> uint (fst (artdmxPackage (run client0 [Set (Num 300) 1 0]) 0 (Some 2)) ! 18) \<noteq> 300"
  by code_simp

section \<open>The payload of a data frame\<close>

text \<open>
  Claim C4, as amended. The payload of the frame \<^verbatim>\<open>artdmxPackage(u, n)\<close> is the first \<open>n'\<close>
  entries of the universe's buffer, each as a byte (the number modulo 256, a hole as 0),
  where \<open>n'\<close> is \<open>n\<close> rounded up to even, reduced modulo 65536 and capped at the number of
  entries the buffer has. A buffer of a reachable client has at least 512 entries, so
  for \<open>n\<close> from 1 to 512 the payload has exactly \<open>n\<close> rounded up to even bytes. The cap
  is the buffer's length, not 512: the buffer is longer than 512 once a \<^verbatim>\<open>set\<close> has
  written beyond channel 512. For a universe without a buffer a zero-filled buffer of
  512 entries is allocated and every payload byte is 0.
\<close>

theorem artdmxPackage_payload:
  "drop 18 (fst (artdmxPackage s u (Some n))) =
     map (\<lambda>j. to_byte (channel_value s u (int j + 1)))
       [0..<min (nat (round_even n mod 65536)) (alength (buffer_of s u))]
   \<and> (reachable s \<longrightarrow> 512 \<le> alength (buffer_of s u))
   \<and> (reachable s \<and> 1 \<le> n \<and> n \<le> 512 \<longrightarrow>
         length (drop 18 (fst (artdmxPackage s u (Some n)))) = nat (round_even n))
   \<and> (arr_get (data s) u = None \<longrightarrow>
         drop 18 (fst (artdmxPackage s u (Some n)))
           = replicate (min (nat (round_even n mod 65536)) 512) 0
       \<and> arr_get (data (snd (artdmxPackage s u (Some n)))) u = Some (arr_fill 512 0))"
proof -
  have a: "512 \<le> alength (buffer_of s u)" if "reachable s"
    using that reachable_data_inv [of s] buffer_of_ok [of s u] by (simp add: buffer_ok_def)
  have b: "length (drop 18 (fst (artdmxPackage s u (Some n)))) = nat (round_even n)"
    if "reachable s" "1 \<le> n" "n \<le> 512"
  proof -
    have "odd n \<Longrightarrow> n \<noteq> 512"
      by auto
    then have "round_even n \<le> 512" "0 \<le> round_even n"
      using that by (auto simp: round_even_def)
    then have "round_even n mod 65536 = round_even n" "nat (round_even n) \<le> 512"
      by simp_all
    then show ?thesis
      using a [OF that(1)] by (simp add: artdmxPackage_payload_eq)
  qed
  have c: "drop 18 (fst (artdmxPackage s u (Some n)))
           = replicate (min (nat (round_even n mod 65536)) 512) 0
       \<and> arr_get (data (snd (artdmxPackage s u (Some n)))) u = Some (arr_fill 512 0)"
    if "arr_get (data s) u = None"
  proof -
    have bo: "buffer_of s u = arr_fill 512 0"
      using that by (simp add: buffer_of_def)
    have "map (\<lambda>j. to_byte (channel_value s u (int j + 1))) [0..<min (nat (round_even n mod 65536)) 512]
            = map (\<lambda>j. 0) [0..<min (nat (round_even n mod 65536)) 512]"
      by (rule map_cong) (simp_all add: channel_value_def bo to_byte_zero)
    then show ?thesis
      using that by (simp add: artdmxPackage_payload_eq bo artdmxPackage_state map_replicate_const)
  qed
  from a b c show ?thesis
    by (simp add: artdmxPackage_payload_eq)
qed

theorem artdmxPackage_payload_witness:
  "drop 18 (fst (artdmxPackage client0 0 (Some 3))) = [0, 0, 0, 0]
   \<and> 512 \<le> alength (buffer_of client0 0)
   \<and> length (drop 18 (fst (artdmxPackage client0 0 (Some 3)))) = 4
   \<and> arr_get (data (snd (artdmxPackage client0 0 (Some 3)))) 0 = Some (arr_fill 512 0)"
proof -
  have n: "nat (round_even 3 mod 65536) = 4"
    by (simp add: round_even_def)
  have r: "replicate 4 (0::byte) = [0, 0, 0, 0]"
    by (simp add: numeral_eq_Suc)
  show ?thesis
    using artdmxPackage_payload [of client0 0 3, THEN conjunct2] reachable_client0 n r
    by simp
qed

text \<open>
  The claim as written caps the payload at 512 bytes. After \<^verbatim>\<open>set(5, 600, 0)\<close> on a new
  client the buffer of universe 0 has 600 entries, and a frame of length 600 carries
  600 payload bytes.
\<close>

theorem artdmxPackage_payload_counterexample:
  "length (drop 18 (fst (artdmxPackage (run client0 [Set (Num 5) 600 0]) 0 (Some 600)))) = 600
   \<and> \<not> length (drop 18 (fst (artdmxPackage (run client0 [Set (Num 5) 600 0]) 0 (Some 600)))) \<le> 512"
proof -
  have "alength (buffer_of (set_buffer client0 (Num 5) 600 0) 0) = 600"
    by code_simp
  then have "alength (buffer_of (run client0 [Set (Num 5) 600 0]) 0) = 600"
    by (simp add: step_def buffer_of_set_artnet)
  moreover have "nat (round_even 600 mod 65536) = 600"
    by (simp add: round_even_def)
  ultimately show ?thesis
    by (simp add: artdmxPackage_length)
qed

section \<open>The length a send announces\<close>

text \<open>
  Claim C5, as amended. A \<^verbatim>\<open>send\<close> that passes the throttle check hands exactly one
  frame to the socket. The length it announces (bytes 16 and 17) is 512 when the send
  is a forced refresh or \<^verbatim>\<open>sendAll\<close> is configured; it is 2 when the universe has no
  watermark yet; and for a watermark \<open>w \<ge> 1\<close> it is \<open>w\<close> rounded up to even and reduced
  modulo 65536, which for \<open>w \<le> 65534\<close> is \<open>w\<close> rounded up to even, at least 2. The
  payload that follows the 18 header bytes is the first entries of the universe's
  buffer, as bytes, as many as announced but no more than the buffer has. A buffer of
  a reachable client has at least 512 entries, so the payload has exactly 512 bytes for
  a forced send, 2 bytes without a watermark, and \<open>w\<close> rounded up to even bytes for a
  watermark from 1 to 512; beyond that it is the smaller of the announced length and
  the buffer's length. (A watermark of 0 is left out of the statement.)
\<close>

theorem send_payload_length:
  assumes "arr_get (throttled s) u \<noteq> Some True"
  shows "\<exists>buf. sent (snd (send s u r)) = sent s @ [(buf, port s, host s)]
       \<and> drop 18 buf =
           map (\<lambda>j. to_byte (channel_value s u (int j + 1)))
             [0..<min (nat (length_field buf)) (alength (buffer_of s u))]
       \<and> (reachable s \<longrightarrow> 512 \<le> alength (buffer_of s u))
       \<and> (r \<or> sendAll s \<longrightarrow>
             length_field buf = 512 \<and> (reachable s \<longrightarrow> length (drop 18 buf) = 512))
       \<and> (\<not> r \<and> \<not> sendAll s \<and> arr_get (dataChanged s) u = None \<longrightarrow>
             length_field buf = 2 \<and> (reachable s \<longrightarrow> length (drop 18 buf) = 2))
       \<and> (\<forall>w. \<not> r \<and> \<not> sendAll s \<and> arr_get (dataChanged s) u = Some w \<and> 1 \<le> w \<longrightarrow>
              length_field buf = round_even w mod 65536
            \<and> length (drop 18 buf)
                = min (nat (round_even w mod 65536)) (alength (buffer_of s u))
            \<and> (w \<le> 65534 \<longrightarrow> length_field buf = max 2 (round_even w))
            \<and> (reachable s \<and> w \<le> 512 \<longrightarrow>
                  length (drop 18 buf) = nat (max 2 (round_even w))))"
proof -
  let ?l = "if sendAll s \<or> r then Some 512 else arr_get (dataChanged s) u"
  let ?buf = "fst (artdmxPackage s u ?l)"
  let ?f = "\<lambda>j. to_byte (channel_value s u (int j + 1))"
  have a: "sent (snd (send s u r)) = sent s @ [(?buf, port s, host s)]"
    using assms by (rule send_idle)
  have p: "drop 18 ?buf = map ?f [0..<min (nat (length_field ?buf)) (alength (buffer_of s u))]"
    by (rule artdmxPackage_payload_field)
  have b: "length_field ?buf = 512" if "r \<or> sendAll s"
  proof -
    from that have "?l = Some 512" by auto
    then have "length_field ?buf = round_even 512 mod 65536"
      by (simp only: artdmxPackage_length_field)
    then show ?thesis by (simp add: round_even_def)
  qed
  have c: "length_field ?buf = 2" if "\<not> r" "\<not> sendAll s" "arr_get (dataChanged s) u = None"
  proof -
    from that have "?l = None" by simp
    then have "length_field ?buf = round_even 2 mod 65536"
      by (simp only: artdmxPackage_default artdmxPackage_length_field)
    then show ?thesis by (simp add: round_even_def)
  qed
  have d: "length_field ?buf = round_even w mod 65536
            \<and> (w \<le> 65534 \<longrightarrow> length_field ?buf = max 2 (round_even w))"
    if "\<not> r" "\<not> sendAll s" "arr_get (dataChanged s) u = Some w" "1 \<le> w" for w
  proof -
    from that have "?l = Some w" by simp
    then have e: "length_field ?buf = round_even w mod 65536"
      by (simp only: artdmxPackage_length_field)
    have two: "2 \<le> round_even w"
      using \<open>1 \<le> w\<close> by (cases "w = 1") (simp_all add: round_even_def)
    have "round_even w mod 65536 = max 2 (round_even w)" if "w \<le> 65534"
    proof -
      have "odd w \<Longrightarrow> w \<noteq> 65534" by auto
      with that have "round_even w < 65536"
        by (simp add: round_even_def)
      with two have "round_even w mod 65536 = round_even w"
        by (intro mod_pos_pos_trivial) simp_all
      with two show ?thesis by simp
    qed
    with e show ?thesis by simp
  qed
  have small: "max 2 (round_even w) \<le> 512" if "1 \<le> w" "w \<le> 512" for w :: int
  proof -
    have "odd w \<Longrightarrow> w \<noteq> 512" by auto
    with that show ?thesis by (auto simp: round_even_def)
  qed
  show ?thesis
  proof (rule exI [of _ ?buf], intro conjI allI impI)
    show "sent (snd (send s u r)) = sent s @ [(?buf, port s, host s)]"
      by (rule a)
  next
    show "drop 18 ?buf = map ?f [0..<min (nat (length_field ?buf)) (alength (buffer_of s u))]"
      by (rule p)
  next
    assume "reachable s"
    then show "512 \<le> alength (buffer_of s u)" by (rule reachable_buffer_length)
  next
    assume "r \<or> sendAll s"
    then show "length_field ?buf = 512" by (rule b)
  next
    assume h: "r \<or> sendAll s" and re: "reachable s"
    have "length_field ?buf \<le> 512" by (simp add: b [OF h])
    with p reachable_buffer_length [OF re, of u]
    have "length (drop 18 ?buf) = nat (length_field ?buf)"
      by (rule payload_length_le)
    then show "length (drop 18 ?buf) = 512" by (simp add: b [OF h])
  next
    assume "\<not> r \<and> \<not> sendAll s \<and> arr_get (dataChanged s) u = None"
    then show "length_field ?buf = 2" using c by simp
  next
    assume h: "\<not> r \<and> \<not> sendAll s \<and> arr_get (dataChanged s) u = None" and re: "reachable s"
    from h have f: "length_field ?buf = 2" using c by simp
    have "length_field ?buf \<le> 512" by (simp add: f)
    with p reachable_buffer_length [OF re, of u]
    have "length (drop 18 ?buf) = nat (length_field ?buf)"
      by (rule payload_length_le)
    then show "length (drop 18 ?buf) = 2" by (simp add: f)
  next
    fix w
    assume "\<not> r \<and> \<not> sendAll s \<and> arr_get (dataChanged s) u = Some w \<and> 1 \<le> w"
    then show "length_field ?buf = round_even w mod 65536" using d [of w] by simp
  next
    fix w
    assume h: "\<not> r \<and> \<not> sendAll s \<and> arr_get (dataChanged s) u = Some w \<and> 1 \<le> w"
    then have f: "length_field ?buf = round_even w mod 65536" using d [of w] by simp
    have "length (drop 18 ?buf) = min (nat (length_field ?buf)) (alength (buffer_of s u))"
      by (subst p) simp
    then show "length (drop 18 ?buf) = min (nat (round_even w mod 65536)) (alength (buffer_of s u))"
      by (simp only: f)
  next
    fix w
    assume "\<not> r \<and> \<not> sendAll s \<and> arr_get (dataChanged s) u = Some w \<and> 1 \<le> w"
       and "w \<le> 65534"
    then show "length_field ?buf = max 2 (round_even w)" using d [of w] by simp
  next
    fix w
    assume h: "\<not> r \<and> \<not> sendAll s \<and> arr_get (dataChanged s) u = Some w \<and> 1 \<le> w"
       and h2: "reachable s \<and> w \<le> 512"
    from h h2 have f: "length_field ?buf = max 2 (round_even w)" using d [of w] by simp
    from h h2 have le: "max 2 (round_even w) \<le> 512" by (intro small) simp_all
    from h2 have re: "reachable s" by simp
    from le have "length_field ?buf \<le> 512" by (simp only: f)
    with p reachable_buffer_length [OF re, of u]
    have "length (drop 18 ?buf) = nat (length_field ?buf)"
      by (rule payload_length_le)
    then show "length (drop 18 ?buf) = nat (max 2 (round_even w))" by (simp only: f)
  qed
qed


theorem send_payload_length_witness:
  "(\<exists>buf. sent (snd (send client_pending 0 False))
            = sent client_pending @ [(buf, port client_pending, host client_pending)]
        \<and> length_field buf = 2 \<and> drop 18 buf = [255, 10])
   \<and> (\<exists>buf. sent (snd (send client0 0 True)) = sent client0 @ [(buf, port client0, host client0)]
        \<and> length_field buf = 512 \<and> length (drop 18 buf) = 512)
   \<and> (\<exists>buf. sent (snd (send client0 0 False)) = sent client0 @ [(buf, port client0, host client0)]
        \<and> length_field buf = 2 \<and> length (drop 18 buf) = 2)"
proof -
  have idle_p: "arr_get (throttled client_pending) 0 \<noteq> Some True"
    by (simp add: client_pending_facts)
  have two: "round_even 2 mod 65536 = 2"
    by (simp add: round_even_def)
  from send_payload_length [OF idle_p, of False] obtain buf
    where s: "sent (snd (send client_pending 0 False))
            = sent client_pending @ [(buf, port client_pending, host client_pending)]"
      and p: "drop 18 buf =
           map (\<lambda>j. to_byte (channel_value client_pending 0 (int j + 1)))
             [0..<min (nat (length_field buf)) (alength (buffer_of client_pending 0))]"
      and w: "\<forall>w. \<not> False \<and> \<not> sendAll client_pending
               \<and> arr_get (dataChanged client_pending) 0 = Some w \<and> 1 \<le> w \<longrightarrow>
              length_field buf = round_even w mod 65536
            \<and> length (drop 18 buf)
                = min (nat (round_even w mod 65536)) (alength (buffer_of client_pending 0))
            \<and> (w \<le> 65534 \<longrightarrow> length_field buf = max 2 (round_even w))
            \<and> (reachable client_pending \<and> w \<le> 512 \<longrightarrow>
                  length (drop 18 buf) = nat (max 2 (round_even w)))"
    by blast
  from w client_pending_facts(2,6) two have f: "length_field buf = 2"
    by auto
  from p have "drop 18 buf = [255, 10]"
    unfolding f by (simp only: client_pending_payload)
  with s f have one: "\<exists>buf. sent (snd (send client_pending 0 False))
            = sent client_pending @ [(buf, port client_pending, host client_pending)]
        \<and> length_field buf = 2 \<and> drop 18 buf = [255, 10]"
    by blast
  have idle: "arr_get (throttled client0) 0 \<noteq> Some True"
    by simp
  from send_payload_length [OF idle, of True] reachable_client0 have two:
    "\<exists>buf. sent (snd (send client0 0 True)) = sent client0 @ [(buf, port client0, host client0)]
        \<and> length_field buf = 512 \<and> length (drop 18 buf) = 512"
    by blast
  have none: "\<not> False \<and> \<not> sendAll client0 \<and> arr_get (dataChanged client0) 0 = None"
    by simp
  from send_payload_length [OF idle, of False] none reachable_client0 have three:
    "\<exists>buf. sent (snd (send client0 0 False)) = sent client0 @ [(buf, port client0, host client0)]
        \<and> length_field buf = 2 \<and> length (drop 18 buf) = 2"
    by blast
  from one two three show ?thesis by blast
qed

text \<open>
  The claim as written fails for a watermark beyond the 16-bit length field: when
  \<^verbatim>\<open>set(1, 65535, 0)\<close> on a new client requests its send, the watermark is 65535, the
  frame announces length 0 and carries no payload byte, where the claim says 65536.
\<close>

theorem send_payload_length_counterexample:
  "arr_get (throttled (set_buffer client0 (Num 1) 65535 0)) 0 \<noteq> Some True
   \<and> \<not> sendAll (set_buffer client0 (Num 1) 65535 0)
   \<and> arr_get (dataChanged (set_buffer client0 (Num 1) 65535 0)) 0 = Some 65535
   \<and> length_field (fst (last (sent (snd (send (set_buffer client0 (Num 1) 65535 0) 0 False))))) = 0
   \<and> length (fst (last (sent (snd (send (set_buffer client0 (Num 1) 65535 0) 0 False))))) = 18
   \<and> max 2 (round_even 65535) = 65536
   \<and> set_artnet client0 (Num 1) 65535 0 = send (set_buffer client0 (Num 1) 65535 0) 0 False"
proof -
  let ?s = "set_buffer client0 (Num 1) 65535 0"
  note a = set_wide_facts(1) and b = set_wide_facts(2) and c = set_wide_facts(3)
  have r: "round_even 65535 = 65536"
    by (simp add: round_even_def)
  have l: "fst (last (sent (snd (send ?s 0 False)))) = fst (artdmxPackage ?s 0 (Some 65535))"
    unfolding send_idle(2) [OF a] using b c by simp
  have "length_field (fst (artdmxPackage ?s 0 (Some 65535))) = 0"
    by (simp only: artdmxPackage_length_field r) simp
  with l have d: "length_field (fst (last (sent (snd (send ?s 0 False))))) = 0"
    by simp
  have "length (fst (artdmxPackage ?s 0 (Some 65535))) = 18"
    by (simp only: artdmxPackage_length r) simp
  with l have d': "length (fst (last (sent (snd (send ?s 0 False))))) = 18"
    by simp
  have e: "set_artnet client0 (Num 1) 65535 0 = send ?s 0 False"
    using c by (simp add: set_artnet_def Let_def truthy_def)
  from a b c d d' e r show ?thesis
    by simp
qed

section \<open>What the encoders do to the state\<close>

text \<open>
  Claim C8, as amended. \<^verbatim>\<open>triggerPackage\<close> is a function of its three arguments alone,
  and sending a trigger frame changes nothing but the list of datagrams handed to the
  socket. \<^verbatim>\<open>artdmxPackage\<close> leaves every watermark, throttle flag, timer handle and armed
  timer as it was, and changes the channel buffers in one case only: a universe that
  has no buffer gets its zero-filled buffer of 512 entries. The contents read from any
  universe (a missing buffer reading as zeros) are the same before and after, and the
  bytes returned depend only on the arguments and on the contents of the universe's
  buffer.
\<close>

theorem encoders_state:
  "snd (artdmxPackage s u l) =
     (case arr_get (data s) u of
        None \<Rightarrow> s\<lparr>data := arr_set (data s) u (arr_fill 512 0)\<rparr>
      | Some a \<Rightarrow> s)
   \<and> dataChanged (snd (artdmxPackage s u l)) = dataChanged s
   \<and> throttled (snd (artdmxPackage s u l)) = throttled s
   \<and> interval (snd (artdmxPackage s u l)) = interval s
   \<and> timers (snd (artdmxPackage s u l)) = timers s
   \<and> (\<forall>u'. buffer_of (snd (artdmxPackage s u l)) u' = buffer_of s u')
   \<and> (buffer_of s u = buffer_of s' u \<longrightarrow>
         fst (artdmxPackage s u l) = fst (artdmxPackage s' u l))
   \<and> snd (trigger s oem key subkey) =
       s\<lparr>sent := sent s @ [(triggerPackage (Some oem) (Some key) (Some subkey), port s, host s)]\<rparr>"
proof (intro conjI allI impI)
  show "snd (artdmxPackage s u l) =
     (case arr_get (data s) u of
        None \<Rightarrow> s\<lparr>data := arr_set (data s) u (arr_fill 512 0)\<rparr>
      | Some a \<Rightarrow> s)"
    by (rule artdmxPackage_state)
  show "snd (trigger s oem key subkey) =
       s\<lparr>sent := sent s @ [(triggerPackage (Some oem) (Some key) (Some subkey), port s, host s)]\<rparr>"
    by (simp add: trigger_def Let_def)
  show "fst (artdmxPackage s u l) = fst (artdmxPackage s' u l)"
    if "buffer_of s u = buffer_of s' u"
    using that by (rule artdmxPackage_fst_buffer)
qed simp_all

theorem encoders_state_witness:
  "fst (artdmxPackage client0 0 (Some 2)) = fst (artdmxPackage (setHost client0 ''10.0.0.7'') 0 (Some 2))"
proof -
  have "buffer_of client0 0 = buffer_of (setHost client0 ''10.0.0.7'') 0"
    by (rule buffer_of_data_cong) (simp add: setHost_def)
  with encoders_state [of client0 0 "Some 2" "setHost client0 ''10.0.0.7''"] show ?thesis
    by blast
qed

text \<open>
  The claim as written says the whole state is exactly as before. On a new client
  universe 0 has no buffer; after \<^verbatim>\<open>artdmxPackage(0, 2)\<close> it has one.
\<close>

theorem encoders_state_counterexample:
  "arr_get (data client0) 0 = None
   \<and> arr_get (data (snd (artdmxPackage client0 0 (Some 2)))) 0 = Some (arr_fill 512 0)
   \<and> snd (artdmxPackage client0 0 (Some 2)) \<noteq> client0"
proof -
  have a: "arr_get (data client0) 0 = None"
    by simp
  then have b: "arr_get (data (snd (artdmxPackage client0 0 (Some 2)))) 0 = Some (arr_fill 512 0)"
    by (simp add: artdmxPackage_state)
  from a b have "snd (artdmxPackage client0 0 (Some 2)) \<noteq> client0"
    by auto
  with a b show ?thesis by simp
qed

section \<open>The bound on the watermark\<close>

text \<open>
  Claim C3, as amended. Start from a new client and let anything happen to it, in any
  order: calls of the public and the protected methods, sleeps ending, timers ticking.
  If no \<^verbatim>\<open>set\<close> on universe \<open>u\<close> among these writes a position beyond channel 512
  (its start channel plus the number of its values, minus one, is at most 512), then
  the watermark of \<open>u\<close> is at most 512 after each of them.
\<close>

theorem watermark_bounded:
  assumes "\<forall>e \<in> set es. within512 u e"
  shows "watermark_le512 (run (Artnet_new c) es) u"
proof -
  have "watermark_le512 s u \<Longrightarrow> \<forall>e \<in> set es. within512 u e \<Longrightarrow> watermark_le512 (run s es) u"
    for s
    by (induction es arbitrary: s) (simp_all add: le512_step)
  moreover have "watermark_le512 (Artnet_new c) u"
    by (simp add: watermark_le512_def Artnet_new_def)
  ultimately show ?thesis
    using assms by blast
qed

theorem watermark_bounded_witness:
  "watermark_le512
     (run (Artnet_new default_config)
        [Set (Num 255) 1 0, Set (Arr [7, 8, 9]) 510 0, Set (Num 5) 600 1]) 0"
proof -
  have "\<forall>e \<in> set [Set (Num 255) 1 0, Set (Arr [7, 8, 9]) 510 0, Set (Num 5) 600 1].
          within512 0 e"
    by (simp add: within512_def)
  then show ?thesis
    by (rule watermark_bounded)
qed

text \<open>
  The claim as written allows any start channel. \<^verbatim>\<open>set(255, 1, 0)\<close> sends and throttles
  universe 0; \<^verbatim>\<open>set(5, 600, 0)\<close> right after it raises the watermark to 600, its send
  is rejected, and the watermark stays at 600.
\<close>

theorem watermark_bounded_counterexample:
  "arr_get (dataChanged (run client0 [Set (Num 255) 1 0, Set (Num 5) 600 0])) 0 = Some 600
   \<and> \<not> watermark_le512 (run client0 [Set (Num 255) 1 0, Set (Num 5) 600 0]) 0"
proof -
  let ?s1 = "set_buffer client_busy (Num 5) 600 0"
  have w: "arr_get (dataChanged ?s1) 0 = Some 600"
    by (simp add: set_buffer_Num_watermark channel_value_def client_busy_facts)
  have busy: "arr_get (throttled ?s1) 0 = Some True"
    by (simp add: client_busy_facts)
  have "set_artnet client_busy (Num 5) 600 0 = send ?s1 0 False"
    using w by (simp add: set_artnet_def Let_def truthy_def)
  then have "step client_busy (Set (Num 5) 600 0) = refreshInterval ?s1 0"
    by (simp add: step_def send_busy [OF busy])
  then have "arr_get (dataChanged (step client_busy (Set (Num 5) 600 0))) 0 = Some 600"
    by (simp add: w)
  moreover have "run client0 [Set (Num 255) 1 0, Set (Num 5) 600 0]
                   = step client_busy (Set (Num 5) 600 0)"
    by (simp add: client_busy_def)
  ultimately show ?thesis
    by (simp add: watermark_le512_def)
qed

section \<open>The watermark after a send\<close>

text \<open>
  Claim C6. When \<^verbatim>\<open>send\<close> for universe \<open>u\<close> is not rejected, the watermark of \<open>u\<close> is
  exactly 0 when it returns. It is still 0 after every further event (calls of any
  method on any universe, sleeps ending, timers ticking, \<^verbatim>\<open>close\<close>) for as long as
  none of them is a \<^verbatim>\<open>set\<close> on \<open>u\<close> that stores a value differing from the stored one.
\<close>

theorem watermark_reset:
  assumes "send s u r = (Socket_promise, s')" and "quiet s' u es"
  shows "arr_get (dataChanged s') u = Some 0
       \<and> (\<forall>k \<le> length es. arr_get (dataChanged (run s' (take k es))) u = Some 0)"
proof -
  from assms(1) have "fst (send s u r) = Socket_promise" and s': "s' = snd (send s u r)"
    by simp_all
  then have "arr_get (throttled s) u \<noteq> Some True"
    by (auto simp: send_fst split: if_splits)
  then have z: "arr_get (dataChanged s') u = Some 0"
    unfolding s' by (simp add: send_idle)
  have "arr_get (dataChanged (run s' (take k es))) u = Some 0" for k
    using z assms(2) by (intro wm0_run quiet_take)
  with z show ?thesis by simp
qed


theorem watermark_reset_witness:
  "arr_get (dataChanged (snd (send client_pending 0 False))) 0 = Some 0
   \<and> arr_get (dataChanged (run (snd (send client_pending 0 False))
                               [Set (Num 10) 2 0, Wake 0])) 0 = Some 0"
proof -
  let ?s' = "snd (send client_pending 0 False)"
  have a: "send client_pending 0 False = (Socket_promise, ?s')"
    by (simp add: prod_eq_iff send_fst client_pending_facts)
  have "channel_value ?s' 0 2 = Some 10"
    by (simp add: channel_value_def client_pending_facts)
  then have q: "quiet ?s' 0 [Set (Num 10) 2 0, Wake 0]"
    by (simp add: stores_def)
  have "(2::nat) \<le> length [Set (Num 10) 2 0, Wake 0]"
    by simp
  with watermark_reset [OF a q]
  have "arr_get (dataChanged ?s') 0 = Some 0"
   and "arr_get (dataChanged (run ?s' (take 2 [Set (Num 10) 2 0, Wake 0]))) 0 = Some 0"
    by blast+
  then show ?thesis
    by (simp del: run_Cons run_Nil)
qed

section \<open>Setting a channel to the value it has\<close>

text \<open>
  Claim C7, as amended. Let channel \<open>c\<close> of universe \<open>u\<close> hold \<open>v\<close> already. Then
  \<^verbatim>\<open>set(v, c, u)\<close> changes no stored channel value and never advances the watermark of
  \<open>u\<close>: afterwards it is what it was, or 0. When no change is pending for \<open>u\<close> (the
  watermark is 0 or not there yet) the call reports success, hands nothing to the
  socket and leaves throttle flags and timers alone. When a change is pending from an
  earlier rejected send, the call requests that send: its result and the datagrams
  handed over are those of \<^verbatim>\<open>send(u, false)\<close>.
\<close>

theorem set_same_value:
  assumes "channel_value s u c = Some v"
  shows "(\<forall>u' c'. channel_value (snd (set_artnet s (Num v) c u)) u' c' = channel_value s u' c')
       \<and> (arr_get (dataChanged (snd (set_artnet s (Num v) c u))) u = Some 0
          \<or> arr_get (dataChanged (snd (set_artnet s (Num v) c u))) u = arr_get (dataChanged s) u)
       \<and> (\<not> truthy (arr_get (dataChanged s) u) \<longrightarrow>
            fst (set_artnet s (Num v) c u) = Resolved_null
          \<and> sent (snd (set_artnet s (Num v) c u)) = sent s
          \<and> throttled (snd (set_artnet s (Num v) c u)) = throttled s
          \<and> interval (snd (set_artnet s (Num v) c u)) = interval s
          \<and> timers (snd (set_artnet s (Num v) c u)) = timers s)
       \<and> (truthy (arr_get (dataChanged s) u) \<longrightarrow>
            fst (set_artnet s (Num v) c u) = fst (send s u False)
          \<and> sent (snd (set_artnet s (Num v) c u)) = sent (snd (send s u False)))"
proof -
  from assms have "\<not> stores s (Set (Num v) c u) u"
    by (simp add: stores_def)
  then have e: "set_buffer s (Num v) c u = ensure_universe s u"
    by (rule set_buffer_quiet)
  show ?thesis
  proof (intro conjI allI impI)
    assume "\<not> truthy (arr_get (dataChanged s) u)"
    then have r: "set_artnet s (Num v) c u = (Resolved_null, ensure_universe s u)"
      by (rule set_noop(3) [OF e])
    show "fst (set_artnet s (Num v) c u) = Resolved_null"
      and "sent (snd (set_artnet s (Num v) c u)) = sent s"
      and "throttled (snd (set_artnet s (Num v) c u)) = throttled s"
      and "interval (snd (set_artnet s (Num v) c u)) = interval s"
      and "timers (snd (set_artnet s (Num v) c u)) = timers s"
      by (simp_all add: r)
  next
    assume t: "truthy (arr_get (dataChanged s) u)"
    show "fst (set_artnet s (Num v) c u) = fst (send s u False)"
      and "sent (snd (set_artnet s (Num v) c u)) = sent (snd (send s u False))"
      using set_noop(4) [OF e t] by simp_all
  qed (rule set_noop(1) [OF e] set_noop(2) [OF e])+
qed

theorem set_same_value_witness:
  "fst (set_artnet client_busy (Num 255) 1 0) = Resolved_null
   \<and> sent (snd (set_artnet client_busy (Num 255) 1 0)) = sent client_busy
   \<and> fst (set_artnet client_pending (Num 10) 2 0) = fst (send client_pending 0 False)"
proof -
  have a: "\<not> truthy (arr_get (dataChanged client_busy) 0)"
    by (simp add: client_busy_facts truthy_def)
  have b: "truthy (arr_get (dataChanged client_pending) 0)"
    by (simp add: client_pending_facts truthy_def)
  from set_same_value [OF client_channel_values(1)] a
  have "fst (set_artnet client_busy (Num 255) 1 0) = Resolved_null"
   and "sent (snd (set_artnet client_busy (Num 255) 1 0)) = sent client_busy"
    by blast+
  moreover from set_same_value [OF client_channel_values(3)] b
  have "fst (set_artnet client_pending (Num 10) 2 0) = fst (send client_pending 0 False)"
    by blast
  ultimately show ?thesis by simp
qed

text \<open>
  The claim as written promises success and no frame in every state. With the change
  of \<^verbatim>\<open>set(10, 2, 0)\<close> pending, repeating \<^verbatim>\<open>set(10, 2, 0)\<close> hands a second frame to the
  socket once the universe is no longer throttled, and is rejected while it still is.
\<close>

theorem set_same_value_counterexample:
  "channel_value client_pending 0 2 = Some 10
   \<and> fst (set_artnet client_pending (Num 10) 2 0) = Socket_promise
   \<and> length (sent client_pending) = 1
   \<and> length (sent (snd (set_artnet client_pending (Num 10) 2 0))) = 2
   \<and> channel_value client_behind 0 2 = Some 10
   \<and> fst (set_artnet client_behind (Num 10) 2 0) = Rejected (RangeError ''Call already pending'')"
proof -
  have "\<not> stores client_pending (Set (Num 10) 2 0) 0"
    by (simp add: stores_def client_channel_values)
  then have e: "set_buffer client_pending (Num 10) 2 0 = ensure_universe client_pending 0"
    by (rule set_buffer_quiet)
  have "\<not> stores client_behind (Set (Num 10) 2 0) 0"
    by (simp add: stores_def client_channel_values)
  then have e': "set_buffer client_behind (Num 10) 2 0 = ensure_universe client_behind 0"
    by (rule set_buffer_quiet)
  have "truthy (arr_get (dataChanged client_behind) 0)"
    by (simp add: client_behind_facts truthy_def)
  then have "fst (set_artnet client_behind (Num 10) 2 0) = fst (send client_behind 0 False)"
    using set_noop(4) [OF e'] by simp
  then have r: "fst (set_artnet client_behind (Num 10) 2 0)
                  = Rejected (RangeError ''Call already pending'')"
    by (simp add: send_fst client_behind_facts)
  show ?thesis
    using client_pending_set_sends(1,2) [OF e] r
    by (simp add: client_channel_values client_pending_facts)
qed

section \<open>Setting an empty array\<close>

text \<open>
  Claim C10, as amended. \<^verbatim>\<open>set([], c, u)\<close> changes no stored channel value and never
  advances the watermark of \<open>u\<close>. When no change is pending for \<open>u\<close> (the watermark is 0
  or not there yet) it reports success, hands nothing to the socket and leaves throttle
  flags, timer handles and timers untouched. When a change is pending from an earlier
  rejected send, it requests that send: its result and the datagrams handed over are
  those of \<^verbatim>\<open>send(u, false)\<close>.
\<close>

theorem set_empty_array:
  "(\<forall>u' c'. channel_value (snd (set_artnet s (Arr []) c u)) u' c' = channel_value s u' c')
   \<and> (arr_get (dataChanged (snd (set_artnet s (Arr []) c u))) u = Some 0
      \<or> arr_get (dataChanged (snd (set_artnet s (Arr []) c u))) u = arr_get (dataChanged s) u)
   \<and> (\<not> truthy (arr_get (dataChanged s) u) \<longrightarrow>
        fst (set_artnet s (Arr []) c u) = Resolved_null
      \<and> sent (snd (set_artnet s (Arr []) c u)) = sent s
      \<and> throttled (snd (set_artnet s (Arr []) c u)) = throttled s
      \<and> interval (snd (set_artnet s (Arr []) c u)) = interval s
      \<and> timers (snd (set_artnet s (Arr []) c u)) = timers s)
   \<and> (truthy (arr_get (dataChanged s) u) \<longrightarrow>
        fst (set_artnet s (Arr []) c u) = fst (send s u False)
      \<and> sent (snd (set_artnet s (Arr []) c u)) = sent (snd (send s u False)))"
proof -
  have e: "set_buffer s (Arr []) c u = ensure_universe s u"
    by (simp add: set_buffer_def)
  show ?thesis
  proof (intro conjI allI impI)
    assume "\<not> truthy (arr_get (dataChanged s) u)"
    then have r: "set_artnet s (Arr []) c u = (Resolved_null, ensure_universe s u)"
      by (rule set_noop(3) [OF e])
    show "fst (set_artnet s (Arr []) c u) = Resolved_null"
      and "sent (snd (set_artnet s (Arr []) c u)) = sent s"
      and "throttled (snd (set_artnet s (Arr []) c u)) = throttled s"
      and "interval (snd (set_artnet s (Arr []) c u)) = interval s"
      and "timers (snd (set_artnet s (Arr []) c u)) = timers s"
      by (simp_all add: r)
  next
    assume t: "truthy (arr_get (dataChanged s) u)"
    show "fst (set_artnet s (Arr []) c u) = fst (send s u False)"
      and "sent (snd (set_artnet s (Arr []) c u)) = sent (snd (send s u False))"
      using set_noop(4) [OF e t] by simp_all
  qed (rule set_noop(1) [OF e] set_noop(2) [OF e])+
qed


theorem set_empty_array_witness:
  "fst (set_artnet client_busy (Arr []) 1 0) = Resolved_null
   \<and> sent (snd (set_artnet client_busy (Arr []) 1 0)) = sent client_busy
   \<and> throttled (snd (set_artnet client_busy (Arr []) 1 0)) = throttled client_busy
   \<and> fst (set_artnet client_pending (Arr []) 1 0) = fst (send client_pending 0 False)"
proof -
  have a: "\<not> truthy (arr_get (dataChanged client_busy) 0)"
    by (simp add: client_busy_facts truthy_def)
  have b: "truthy (arr_get (dataChanged client_pending) 0)"
    by (simp add: client_pending_facts truthy_def)
  from set_empty_array [of client_busy 1 0] a
  have "fst (set_artnet client_busy (Arr []) 1 0) = Resolved_null"
   and "sent (snd (set_artnet client_busy (Arr []) 1 0)) = sent client_busy"
   and "throttled (snd (set_artnet client_busy (Arr []) 1 0)) = throttled client_busy"
    by blast+
  moreover from set_empty_array [of client_pending 1 0] b
  have "fst (set_artnet client_pending (Arr []) 1 0) = fst (send client_pending 0 False)"
    by blast
  ultimately show ?thesis by simp
qed

text \<open>
  The claim as written calls the empty \<^verbatim>\<open>set\<close> a no-op in every state. With a change
  pending on universe 0 and the throttle released, \<^verbatim>\<open>set([], 1, 0)\<close> hands a frame to the
  socket, resets the watermark from 2 to 0 and throttles the universe.
\<close>

theorem set_empty_array_counterexample:
  "fst (set_artnet client_pending (Arr []) 1 0) = Socket_promise
   \<and> length (sent client_pending) = 1
   \<and> length (sent (snd (set_artnet client_pending (Arr []) 1 0))) = 2
   \<and> arr_get (dataChanged client_pending) 0 = Some 2
   \<and> arr_get (dataChanged (snd (set_artnet client_pending (Arr []) 1 0))) 0 = Some 0
   \<and> arr_get (throttled client_pending) 0 = Some False
   \<and> arr_get (throttled (snd (set_artnet client_pending (Arr []) 1 0))) 0 = Some True"
proof -
  have e: "set_buffer client_pending (Arr []) 1 0 = ensure_universe client_pending 0"
    by (simp add: set_buffer_def)
  show ?thesis
    using client_pending_set_sends [OF e]
    by (simp add: client_pending_facts)
qed

end
